theory Spec2Isabelle
  imports Complex_Main "HOL-Library.Multiset" "HOL-Library.Log_Nat"
begin

section \<open>The random source\<close>

text \<open>
  The module draws all its randomness from Python's global \<^verbatim>\<open>random\<close> generator.
  The generator is modelled as an arbitrary infinite sequence of raw draws together with
  the number of draws made so far.  Every sequence of outcomes the real generator can
  produce is the image of some \<open>draws\<close>, and the counter \<open>drawn\<close> is the call count of
  the random source.
\<close>

record random_state =
  draws :: "nat \<Rightarrow> nat"
  drawn :: nat

datatype error =
  NotImplementedError | ZeroDivisionError | OverflowError | IndexError | ValueError

text \<open>
  \<^verbatim>\<open>random.randint(a, b)\<close>: an integer in \<open>[a, b]\<close>.  Its only call site is
  \<^verbatim>\<open>random.randint(1, 6)\<close>, so the empty-range error of the library cannot occur.
\<close>

definition randint :: "int \<Rightarrow> int \<Rightarrow> random_state \<Rightarrow> int \<times> random_state" where
  "randint a b g =
     (a + int (draws g (drawn g) mod nat (b - a + 1)), g\<lparr>drawn := drawn g + 1\<rparr>)"

text \<open>
  \<^verbatim>\<open>random.choice(seq)\<close>: raises IndexError on an empty sequence, otherwise returns the
  element at a random position.
\<close>

definition choice :: "'a list \<Rightarrow> random_state \<Rightarrow> error + ('a \<times> random_state)" where
  "choice seq g =
     (if seq = [] then Inl IndexError
      else Inr (seq ! (draws g (drawn g) mod length seq), g\<lparr>drawn := drawn g + 1\<rparr>))"

section \<open>AI.simulate\<close>

text \<open>\<^verbatim>\<open>[random.randint(1, 6) for i in range(n)]\<close>\<close>

fun rolls :: "nat \<Rightarrow> random_state \<Rightarrow> int list \<times> random_state" where
  "rolls 0 g = ([], g)"
| "rolls (Suc n) g =
     (case randint 1 6 g of (x, g1) \<Rightarrow>
        (case rolls n g1 of (xs, g2) \<Rightarrow> (x # xs, g2)))"

text \<open>\<^verbatim>\<open>sorted(xs, reverse=True)\<close>\<close>

definition sorted_reverse :: "int list \<Rightarrow> int list" where
  "sorted_reverse xs = rev (sort xs)"

text \<open>
  The loop \<^verbatim>\<open>for aa, dd in zip(atk_roll, def_roll)\<close>, acting on the pair \<open>(a, d)\<close>.
\<close>

fun compare_dice :: "(int \<times> int) list \<Rightarrow> int \<times> int \<Rightarrow> int \<times> int" where
  "compare_dice [] (a, d) = (a, d)"
| "compare_dice ((aa, dd) # ps) (a, d) =
     (if aa > dd then compare_dice ps (a, d - 1) else compare_dice ps (a - 1, d))"

text \<open>One pass through the body of \<^verbatim>\<open>while a > 1 and d > 0\<close>.\<close>

definition battle_round :: "int \<Rightarrow> int \<Rightarrow> random_state \<Rightarrow> int \<times> int \<times> random_state" where
  "battle_round a d g =
     (let atk_dice = min (a - 1) 3 in
      case rolls (nat atk_dice) g of (ar, g1) \<Rightarrow>
      let atk_roll = sorted_reverse ar;
          def_dice = min d 2 in
      case rolls (nat def_dice) g1 of (dr, g2) \<Rightarrow>
      let def_roll = sorted_reverse dr in
      case compare_dice (zip atk_roll def_roll) (a, d) of (a', d') \<Rightarrow> (a', d', g2))"

subsection \<open>Facts about one round, needed to define the loop\<close>

lemma rolls_Suc:
  "rolls (Suc n) g =
     (fst (randint 1 6 g) # fst (rolls n (snd (randint 1 6 g))),
      snd (rolls n (snd (randint 1 6 g))))"
  by (simp split: prod.splits)

lemma rolls_length: "length (fst (rolls n g)) = n"
  by (induction n arbitrary: g) (simp_all add: rolls_Suc del: rolls.simps(2))

lemma rolls_drawn: "drawn (snd (rolls n g)) = drawn g + n"
  by (induction n arbitrary: g) (simp_all add: rolls_Suc randint_def del: rolls.simps(2))

lemma rolls_draws: "draws (snd (rolls n g)) = draws g"
  by (induction n arbitrary: g) (simp_all add: rolls_Suc randint_def del: rolls.simps(2))

lemma rolls_range: "x \<in> set (fst (rolls n g)) \<Longrightarrow> 1 \<le> x \<and> x \<le> 6"
proof (induction n arbitrary: g)
  case 0
  then show ?case by simp
next
  case (Suc n)
  obtain y g1 where r: "randint 1 6 g = (y, g1)" by (cases "randint 1 6 g")
  obtain ys g2 where rs: "rolls n g1 = (ys, g2)" by (cases "rolls n g1")
  have y: "1 \<le> y \<and> y \<le> 6"
    using r by (auto simp: randint_def)
  from Suc.prems r rs have "x = y \<or> x \<in> set (fst (rolls n g1))" by auto
  with y Suc.IH show ?case by blast
qed

lemma compare_dice_losses:
  "compare_dice ps (a, d) =
     (a - int (length (filter (\<lambda>(aa, dd). \<not> aa > dd) ps)),
      d - int (length (filter (\<lambda>(aa, dd). aa > dd) ps)))"
  by (induction ps "(a, d)" arbitrary: a d rule: compare_dice.induct) auto

lemma compare_dice_total:
  "compare_dice ps (a, d) = (a', d') \<Longrightarrow> a' + d' = a + d - int (length ps)"
  by (induction ps "(a, d)" arbitrary: a d rule: compare_dice.induct) (auto split: if_splits)

lemma compare_dice_bounds:
  "compare_dice ps (a, d) = (a', d') \<Longrightarrow>
     a - int (length ps) \<le> a' \<and> a' \<le> a \<and> d - int (length ps) \<le> d' \<and> d' \<le> d"
proof -
  assume h: "compare_dice ps (a, d) = (a', d')"
  have "length (filter (\<lambda>(aa, dd). \<not> aa > dd) ps) \<le> length ps"
    and "length (filter (\<lambda>(aa, dd). aa > dd) ps) \<le> length ps"
    by (rule length_filter_le)+
  with h show ?thesis
    unfolding compare_dice_losses by auto
qed

lemma battle_round_pairs:
  assumes "battle_round a d g = (a', d', g')"
  shows "a' + d' = a + d - int (min (nat (min (a - 1) 3)) (nat (min d 2)))"
    and "a - int (min (nat (min (a - 1) 3)) (nat (min d 2))) \<le> a'"
    and "d - int (min (nat (min (a - 1) 3)) (nat (min d 2))) \<le> d'"
    and "a' \<le> a" and "d' \<le> d"
proof -
  obtain ar g1 where r1: "rolls (nat (min (a - 1) 3)) g = (ar, g1)"
    by (cases "rolls (nat (min (a - 1) 3)) g")
  obtain dr g2 where r2: "rolls (nat (min d 2)) g1 = (dr, g2)"
    by (cases "rolls (nat (min d 2)) g1")
  have la: "length ar = nat (min (a - 1) 3)"
    using rolls_length [of "nat (min (a - 1) 3)" g] r1 by simp
  have ld: "length dr = nat (min d 2)"
    using rolls_length [of "nat (min d 2)" g1] r2 by simp
  let ?ps = "zip (sorted_reverse ar) (sorted_reverse dr)"
  have c: "compare_dice ?ps (a, d) = (a', d')"
    using assms r1 r2 by (simp add: battle_round_def Let_def split: prod.splits)
  have len: "int (length ?ps) = int (min (nat (min (a - 1) 3)) (nat (min d 2)))"
    by (simp add: sorted_reverse_def la ld)
  show "a' + d' = a + d - int (min (nat (min (a - 1) 3)) (nat (min d 2)))"
    using compare_dice_total [OF c] len by simp
  show "a - int (min (nat (min (a - 1) 3)) (nat (min d 2))) \<le> a'"
    using compare_dice_bounds [OF c] len by simp
  show "d - int (min (nat (min (a - 1) 3)) (nat (min d 2))) \<le> d'"
    using compare_dice_bounds [OF c] len by simp
  show "a' \<le> a" using compare_dice_bounds [OF c] by simp
  show "d' \<le> d" using compare_dice_bounds [OF c] by simp
qed

lemma battle_round_decreases:
  assumes "1 < a" and "0 < d" and "battle_round a d g = (a', d', g')"
  shows "a' + d' < a + d" and "1 \<le> a'" and "0 \<le> d'"
  using battle_round_pairs [OF assms(3)] assms(1,2) by auto

lemma battle_round_measure:
  assumes "1 < a" and "0 < d"
  shows "(case battle_round a d g of (a', d', g') \<Rightarrow> nat (a' + d')) < nat (a + d)"
proof -
  obtain a' d' g' where r: "battle_round a d g = (a', d', g')"
    by (cases "battle_round a d g")
  from battle_round_decreases(1) [OF assms r] assms show ?thesis
    by (simp add: r)
qed

subsection \<open>The battle loop and the trials\<close>

text \<open>
  \<^verbatim>\<open>while a > 1 and d > 0: ...\<close>, returning the values of \<open>a\<close> and \<open>d\<close> at loop exit
  and the random source after the loop.
\<close>

function battle :: "int \<Rightarrow> int \<Rightarrow> random_state \<Rightarrow> int \<times> int \<times> random_state" where
  "battle a d g =
     (if a > 1 \<and> d > 0
      then (case battle_round a d g of (a', d', g') \<Rightarrow> battle a' d' g')
      else (a, d, g))"
  by pat_completeness auto
termination
  by (relation "measure (\<lambda>(a, d, g). nat (a + d))") (auto simp: battle_round_measure)

declare battle.simps [simp del]

text \<open>The same loop, counting how often its body runs.\<close>

function battle_iterations :: "int \<Rightarrow> int \<Rightarrow> random_state \<Rightarrow> nat" where
  "battle_iterations a d g =
     (if a > 1 \<and> d > 0
      then (case battle_round a d g of (a', d', g') \<Rightarrow> Suc (battle_iterations a' d' g'))
      else 0)"
  by pat_completeness auto
termination
  by (relation "measure (\<lambda>(a, d, g). nat (a + d))") (auto simp: battle_round_measure)

declare battle_iterations.simps [simp del]

subsection \<open>Python floats\<close>

text \<open>
  A Python float is an IEEE double.  Its value is kept as a rational number; the two
  zeros, which Python compares equal, are not told apart, and infinities and NaN do not
  arise in \<open>simulate\<close>.  \<open>floor_log2 x\<close> is the binary exponent of a positive \<open>x\<close>;
  \<open>round_double\<close> rounds to the nearest double, ties to even, with the subnormal grid
  \<open>2 ^ -1074\<close> at the bottom; \<open>max_double\<close> is the largest finite double.
\<close>

definition floor_log2 :: "rat \<Rightarrow> int" where
  "floor_log2 x =
     (case quotient_of x of (p, q) \<Rightarrow>
        let e = bitlen p - bitlen q in if 2 powi e \<le> x then e else e - 1)"

definition round_half_even :: "rat \<Rightarrow> int" where
  "round_half_even r =
     (let f = \<lfloor>r\<rfloor>; t = r - of_int f
      in if t < 1 / 2 then f else if 1 / 2 < t then f + 1 else if even f then f else f + 1)"

definition round_double :: "rat \<Rightarrow> rat" where
  "round_double x =
     (if x = 0 then 0
      else let q = max (floor_log2 \<bar>x\<bar> - 52) (- 1074)
           in of_int (round_half_even (x / 2 powi q)) * 2 powi q)"

definition max_double :: rat where
  "max_double = (2 ^ 53 - 1) * 2 ^ 971"

text \<open>
  \<^verbatim>\<open>float(n)\<close> for an integer \<open>n\<close>: the nearest double, or OverflowError when that
  would lie beyond the largest finite double.
\<close>

definition float :: "int \<Rightarrow> error + rat" where
  "float n =
     (let x = round_double (of_int n)
      in if max_double < \<bar>x\<bar> then Inl OverflowError else Inr x)"

text \<open>
  \<^verbatim>\<open>x / n\<close> for a float \<open>x\<close> and an integer \<open>n\<close>: \<open>n\<close> is converted first (which
  may raise OverflowError), a zero divisor raises ZeroDivisionError, and the quotient
  is rounded.  The divisor is a non-zero integer-valued double, so the quotient is no
  larger in magnitude than \<open>x\<close> and cannot overflow.
\<close>

definition float_div :: "rat \<Rightarrow> int \<Rightarrow> error + rat" where
  "float_div x n =
     (case float n of
        Inl e \<Rightarrow> Inl e
      | Inr y \<Rightarrow> if y = 0 then Inl ZeroDivisionError else Inr (round_double (x / y)))"

text \<open>\<^verbatim>\<open>float(n) / m\<close> for integers \<open>n\<close> and \<open>m\<close>.\<close>

definition float_quotient :: "int \<Rightarrow> int \<Rightarrow> error + rat" where
  "float_quotient n m = (case float n of Inl e \<Rightarrow> Inl e | Inr x \<Rightarrow> float_div x m)"

text \<open>
  The statistics triple \<^verbatim>\<open>(probability_of_victory, avg_surviving_attackers,
  avg_surviving_defenders)\<close> of floats.
\<close>

type_synonym stats = "rat \<times> rat \<times> rat"

definition probability_of_victory :: "stats \<Rightarrow> rat" where
  "probability_of_victory v = fst v"



text \<open>
  \<^verbatim>\<open>for i in range(tests)\<close>: the first argument is the number of iterations left; the
  accumulator is \<^verbatim>\<open>(a_survive, d_survive, victory)\<close>.
\<close>

fun trials ::
  "nat \<Rightarrow> int \<Rightarrow> int \<Rightarrow> int list \<times> int list \<times> int \<Rightarrow> random_state
     \<Rightarrow> (int list \<times> int list \<times> int) \<times> random_state" where
  "trials 0 n_atk n_def acc g = (acc, g)"
| "trials (Suc k) n_atk n_def (a_survive, d_survive, victory) g =
     (case battle n_atk n_def g of (a, d, g') \<Rightarrow>
        if d = 0
        then trials k n_atk n_def (a_survive @ [a], d_survive, victory + 1) g'
        else trials k n_atk n_def (a_survive, d_survive @ [d], victory) g')"

text \<open>
  The process state: the class attribute \<^verbatim>\<open>_sim_cache\<close> shared by all AI instances,
  and the global random source.
\<close>

record state =
  sim_cache :: "int \<times> int \<rightharpoonup> stats"
  random :: random_state

text \<open>
  \<^verbatim>\<open>AI.simulate(n_atk, n_def, tests)\<close>.  The three components of the tuple are
  evaluated in order, and each may raise: ZeroDivisionError from
  \<^verbatim>\<open>float(victory) / tests\<close> when \<open>tests = 0\<close>, OverflowError from any conversion
  of an integer too large for a double.  An exception leaves the cache as it was; the
  dice rolled by the trials stay rolled, which the result \<open>Inl e\<close> does not show.
\<close>

definition simulate :: "int \<Rightarrow> int \<Rightarrow> int \<Rightarrow> state \<Rightarrow> error + (stats \<times> state)" where
  "simulate n_atk n_def tests s =
     (case sim_cache s (n_atk, n_def) of
        Some v \<Rightarrow> Inr (v, s)
      | None \<Rightarrow>
          (case trials (nat tests) n_atk n_def ([], [], 0) (random s) of
             ((a_survive, d_survive, victory), g) \<Rightarrow>
               (case float_quotient victory tests of
                  Inl e \<Rightarrow> Inl e
                | Inr p \<Rightarrow>
                    (case (if victory \<noteq> 0
                           then float_quotient (sum_list a_survive) victory else Inr 0) of
                       Inl e \<Rightarrow> Inl e
                     | Inr sa \<Rightarrow>
                         (case (if tests - victory \<noteq> 0
                                then float_quotient (sum_list d_survive) (tests - victory)
                                else Inr 0) of
                            Inl e \<Rightarrow> Inl e
                          | Inr sd \<Rightarrow>
                              Inr ((p, sa, sd),
                                   s\<lparr>sim_cache := (sim_cache s)((n_atk, n_def) \<mapsto> (p, sa, sd)),
                                     random := g\<rparr>))))))"

text \<open>
  What can happen to the process state between two calls of \<open>simulate\<close>: other calls of
  \<open>simulate\<close> with any arguments, and any drawing from the random source, by other code
  or by a call of \<open>simulate\<close> that ends in an exception.  Nothing else in the module
  touches \<^verbatim>\<open>_sim_cache\<close>.
\<close>

inductive later :: "state \<Rightarrow> state \<Rightarrow> bool" where
  later_refl: "later s s"
| later_simulate: "later s s1 \<Longrightarrow> simulate a d t s1 = Inr (v, s2) \<Longrightarrow> later s s2"
| later_random: "later s s1 \<Longrightarrow> later s (s1\<lparr>random := g\<rparr>)"

section \<open>The decision operations\<close>

text \<open>
  The game, world and player objects live outside this module.  Of a territory the
  decision methods modelled here read its area and its \<^verbatim>\<open>border\<close> flag; of the agent,
  \<^verbatim>\<open>self.player.territories\<close> (the territories it owns) and, for BetterAI, the list
  \<^verbatim>\<open>self.area_priority\<close> of area names that \<^verbatim>\<open>start()\<close> has set up.
\<close>

record territory =
  name :: string
  area :: string
  border :: bool

record ai =
  territories :: "territory list"
  area_priority :: "string list"

subsection \<open>The base class AI\<close>

definition AI_initial_placement ::
  "ai \<Rightarrow> territory list option \<Rightarrow> int \<Rightarrow> error + territory" where
  "AI_initial_placement self empty_ts remaining = Inl NotImplementedError"

definition AI_reinforce :: "ai \<Rightarrow> int \<Rightarrow> error + (territory \<times> int) list" where
  "AI_reinforce self available = Inl NotImplementedError"

definition AI_attack :: "ai \<Rightarrow> error + (territory \<times> territory) list" where
  "AI_attack self = Inl NotImplementedError"

definition AI_freemove :: "ai \<Rightarrow> error + (territory \<times> territory \<times> int) option" where
  "AI_freemove self = Inr None"

subsection \<open>Helpers for the concrete agents\<close>

text \<open>\<^verbatim>\<open>xs.index(x)\<close>: the first position of \<open>x\<close>, ValueError when \<open>x\<close> is absent.\<close>

fun list_index :: "'a list \<Rightarrow> 'a \<Rightarrow> error + nat" where
  "list_index [] x = Inl ValueError"
| "list_index (y # ys) x =
     (if y = x then Inr 0
      else (case list_index ys x of Inl e \<Rightarrow> Inl e | Inr i \<Rightarrow> Inr (Suc i)))"

text \<open>
  \<^verbatim>\<open>sorted(ts, key=lambda x: self.area_priority.index(x.area.name))\<close>: the keys of all
  elements are computed first (any of them may raise), then the list is sorted stably.
\<close>

fun area_keys :: "string list \<Rightarrow> territory list \<Rightarrow> error + (nat \<times> territory) list" where
  "area_keys prio [] = Inr []"
| "area_keys prio (t # ts) =
     (case list_index prio (area t) of
        Inl e \<Rightarrow> Inl e
      | Inr k \<Rightarrow> (case area_keys prio ts of Inl e \<Rightarrow> Inl e | Inr kts \<Rightarrow> Inr ((k, t) # kts)))"

definition sorted_by_area :: "ai \<Rightarrow> territory list \<Rightarrow> error + territory list" where
  "sorted_by_area self ts =
     (case area_keys (area_priority self) ts of
        Inl e \<Rightarrow> Inl e
      | Inr kts \<Rightarrow> Inr (map snd (sort_key fst kts)))"

text \<open>
  A \<^verbatim>\<open>collections.defaultdict(int)\<close> as an association list in insertion order, and the
  statement \<^verbatim>\<open>result[t] += 1\<close> on it.
\<close>

type_synonym 'k counts = "('k \<times> int) list"

fun increment :: "'k counts \<Rightarrow> 'k \<Rightarrow> 'k counts" where
  "increment [] t = [(t, 0 + 1)]"
| "increment ((k, n) # kns) t =
     (if k = t then (k, n + 1) # kns else (k, n) # increment kns t)"

subsection \<open>BetterAI\<close>

definition BetterAI_priority :: "ai \<Rightarrow> error + territory list" where
  "BetterAI_priority self =
     (case sorted_by_area self (filter border (territories self)) of
        Inl e \<Rightarrow> Inl e
      | Inr priority \<Rightarrow>
          let priority' = filter (\<lambda>t. area t = area (hd priority)) priority
          in Inr (if priority' \<noteq> [] then priority' else territories self))"

definition BetterAI_initial_placement ::
  "ai \<Rightarrow> territory list option \<Rightarrow> int \<Rightarrow> random_state
     \<Rightarrow> error + (territory \<times> random_state)" where
  "BetterAI_initial_placement self empty_ts available g =
     (if empty_ts \<noteq> None \<and> the empty_ts \<noteq> []
      then (case sorted_by_area self (the empty_ts) of
              Inl e \<Rightarrow> Inl e
            | Inr [] \<Rightarrow> Inl IndexError
            | Inr (t # ts) \<Rightarrow> Inr (t, g))
      else (case BetterAI_priority self of
              Inl e \<Rightarrow> Inl e
            | Inr priority \<Rightarrow> choice priority g))"

text \<open>
  \<^verbatim>\<open>while available: ...; available -= 1\<close> never ends for a negative \<open>available\<close>
  (unless the choice raises), so the loop is a partial function: \<open>None\<close> is "does not
  return".
\<close>

partial_function (option) reinforce_loop ::
  "territory list \<Rightarrow> int \<Rightarrow> territory counts \<Rightarrow> random_state
     \<Rightarrow> (error + (territory counts \<times> random_state)) option" where
  "reinforce_loop priority available result g =
     (if available \<noteq> 0
      then (case choice priority g of
              Inl e \<Rightarrow> Some (Inl e)
            | Inr (t, g') \<Rightarrow> reinforce_loop priority (available - 1) (increment result t) g')
      else Some (Inr (result, g)))"

definition BetterAI_reinforce ::
  "ai \<Rightarrow> int \<Rightarrow> random_state \<Rightarrow> (error + (territory counts \<times> random_state)) option" where
  "BetterAI_reinforce self available g =
     (case BetterAI_priority self of
        Inl e \<Rightarrow> Some (Inl e)
      | Inr priority \<Rightarrow> reinforce_loop priority available [] g)"

subsection \<open>StupidAI\<close>

definition StupidAI_initial_placement ::
  "ai \<Rightarrow> territory list option \<Rightarrow> int \<Rightarrow> random_state
     \<Rightarrow> error + (territory \<times> random_state)" where
  "StupidAI_initial_placement self empty_ts remaining g =
     (if empty_ts \<noteq> None \<and> the empty_ts \<noteq> []
      then choice (the empty_ts) g
      else choice (territories self) g)"

text \<open>\<^verbatim>\<open>for i in range(available): t = random.choice(border); result[t] += 1\<close>\<close>

fun reinforce_for ::
  "nat \<Rightarrow> territory list \<Rightarrow> territory counts \<Rightarrow> random_state
     \<Rightarrow> error + (territory counts \<times> random_state)" where
  "reinforce_for 0 border_list result g = Inr (result, g)"
| "reinforce_for (Suc n) border_list result g =
     (case choice border_list g of
        Inl e \<Rightarrow> Inl e
      | Inr (t, g') \<Rightarrow> reinforce_for n border_list (increment result t) g')"

definition StupidAI_reinforce ::
  "ai \<Rightarrow> int \<Rightarrow> random_state \<Rightarrow> error + (territory counts \<times> random_state)" where
  "StupidAI_reinforce self available g =
     (let border_list = filter border (territories self)
      in reinforce_for (nat available) border_list [] g)"

section \<open>A deterministic random source for concrete runs\<close>

text \<open>
  A random source whose raw draws are the given numbers, then zeros.  A raw draw \<open>r\<close>
  shows as the die face \<open>1 + r mod 6\<close> and as the position \<open>r mod length seq\<close> of a
  choice.
\<close>

definition mock_random :: "nat list \<Rightarrow> random_state" where
  "mock_random raw = \<lparr>draws = (\<lambda>i. if i < length raw then raw ! i else 0), drawn = 0\<rparr>"

section \<open>Trials that never enter the battle loop\<close>

lemma battle_no_fight: "\<not> (1 < a \<and> 0 < d) \<Longrightarrow> battle a d g = (a, d, g)"
  by (subst battle.simps) auto

lemma battle_iterations_no_fight: "\<not> (1 < a \<and> 0 < d) \<Longrightarrow> battle_iterations a d g = 0"
  by (subst battle_iterations.simps) auto

lemma trials_no_fight:
  "\<not> (1 < a \<and> 0 < d) \<Longrightarrow>
   trials k a d (as, ds, v) g =
     (if d = 0 then (as @ replicate k a, ds, v + int k) else (as, ds @ replicate k d, v), g)"
proof (induction k arbitrary: as ds v)
  case 0
  then show ?case by simp
next
  case (Suc k)
  have b: "battle a d g = (a, d, g)" using Suc.prems by (rule battle_no_fight)
  show ?case
  proof (cases "d = 0")
    case True
    have "trials k a d (as @ [a], ds, v + 1) g = ((as @ a # replicate k a, ds, v + 1 + int k), g)"
      using Suc.IH [OF Suc.prems, of "as @ [a]" ds "v + 1"] True by simp
    then show ?thesis using True b by (simp add: add.assoc)
  next
    case False
    have "trials k a d (as, ds @ [d], v) g = ((as, ds @ d # replicate k d, v), g)"
      using Suc.IH [OF Suc.prems, of as "ds @ [d]" v] False by simp
    then show ?thesis using False b by (simp add: replicate_app_Cons_same)
  qed
qed

lemma sum_list_replicate_int: "sum_list (replicate k (x::int)) = int k * x"
  by (induction k) (simp_all add: algebra_simps)

section \<open>Rounding to a double\<close>

lemma bitlen_powi:
  assumes "0 < p"
  shows "(2::rat) powi (bitlen p - 1) \<le> of_int p" and "of_int p < (2::rat) powi bitlen p"
proof -
  from bitlen_bounds [OF assms]
  have b: "2 ^ nat (bitlen p - 1) \<le> p" "p < 2 ^ nat (bitlen p)" by simp_all
  have ge: "1 \<le> bitlen p" using assms by (auto simp: bitlen_alt_def)
  have "(of_int (2 ^ nat (bitlen p - 1)) :: rat) \<le> of_int p"
    using b(1) by (simp only: of_int_le_iff)
  then show "(2::rat) powi (bitlen p - 1) \<le> of_int p"
    using ge by (simp add: power_int_nonneg_exp)
  have "(of_int p :: rat) < of_int (2 ^ nat (bitlen p))"
    using b(2) by (simp only: of_int_less_iff)
  then show "of_int p < (2::rat) powi bitlen p"
    using ge by (simp add: power_int_nonneg_exp)
qed

lemma floor_log2_bounds:
  assumes "0 < x"
  shows "2 powi floor_log2 x \<le> x" and "x < 2 powi (floor_log2 x + 1)"
proof -
  obtain p q where pq: "quotient_of x = (p, q)" by (cases "quotient_of x")
  have q: "0 < q" using quotient_of_denom_pos [OF pq] .
  have x: "x = of_int p / of_int q" using quotient_of_div [OF pq] .
  have p: "0 < p" using assms q x by (simp add: zero_less_divide_iff)
  define e where "e = bitlen p - bitlen q"
  have qr: "(0::rat) < of_int q" using q by simp
  have lo: "2 powi (e - 1) \<le> x"
  proof -
    have "e - 1 = bitlen p - 1 - bitlen q"
      by (simp add: e_def)
    then have "(2::rat) powi (e - 1) = 2 powi (bitlen p - 1) / 2 powi bitlen q"
      by (simp only: power_int_diff [of 2, OF disjI1] numeral_neq_zero simp_thms)
    also have "\<dots> \<le> of_int p / 2 powi bitlen q"
      using bitlen_powi(1) [OF p] by (simp add: divide_right_mono)
    also have "\<dots> \<le> of_int p / of_int q"
      using bitlen_powi(2) [OF q] p qr by (intro divide_left_mono mult_pos_pos) simp_all
    finally show ?thesis by (simp add: x)
  qed
  have hi: "x < 2 powi (e + 1)"
  proof -
    have "x = of_int p / of_int q" by (rule x)
    also have "\<dots> < 2 powi bitlen p / of_int q"
      using bitlen_powi(2) [OF p] qr by (simp add: divide_strict_right_mono)
    also have "\<dots> \<le> 2 powi bitlen p / 2 powi (bitlen q - 1)"
      using bitlen_powi(1) [OF q] qr by (intro divide_left_mono mult_pos_pos) simp_all
    also have "\<dots> = 2 powi (bitlen p - (bitlen q - 1))"
      by (rule power_int_diff [symmetric]) simp
    also have "bitlen p - (bitlen q - 1) = e + 1"
      by (simp add: e_def)
    finally show ?thesis .
  qed
  have fl: "floor_log2 x = (if 2 powi e \<le> x then e else e - 1)"
    by (simp add: floor_log2_def pq e_def Let_def)
  show "2 powi floor_log2 x \<le> x" using lo by (simp add: fl)
  show "x < 2 powi (floor_log2 x + 1)" using hi by (auto simp: fl)
qed

lemma powi_less_imp_less:
  assumes "(2::rat) powi m < 2 powi n"
  shows "m < n"
proof (rule ccontr)
  assume "\<not> m < n"
  then have "n \<le> m" by simp
  then have "(2::rat) powi n \<le> 2 powi m" by (intro power_int_increasing) simp_all
  with assms show False by simp
qed

lemma floor_log2_eq:
  assumes "2 powi e \<le> x" and "x < 2 powi (e + 1)"
  shows "floor_log2 x = e"
proof -
  have pos: "0 < x" using assms(1) by (rule less_le_trans [rotated]) simp
  from floor_log2_bounds [OF pos] assms
  have "(2::rat) powi floor_log2 x < 2 powi (e + 1)" "(2::rat) powi e < 2 powi (floor_log2 x + 1)"
    by linarith+
  then have "floor_log2 x < e + 1" and "e < floor_log2 x + 1"
    by (auto dest: powi_less_imp_less)
  then show ?thesis by simp
qed

lemma round_half_even_le: "r \<le> of_int N \<Longrightarrow> round_half_even r \<le> N"
proof -
  assume h: "r \<le> of_int N"
  then have f: "\<lfloor>r\<rfloor> \<le> N" by (simp add: floor_le_iff)
  show ?thesis
  proof (cases "\<lfloor>r\<rfloor> = N")
    case True
    have "of_int \<lfloor>r\<rfloor> \<le> r" by simp
    with True h have "r - of_int \<lfloor>r\<rfloor> = 0" by simp
    then show ?thesis using True by (simp add: round_half_even_def Let_def)
  next
    case False
    with f have "\<lfloor>r\<rfloor> + 1 \<le> N" by simp
    then show ?thesis using f by (simp add: round_half_even_def Let_def)
  qed
qed

lemma round_half_even_ge: "of_int N \<le> r \<Longrightarrow> N \<le> round_half_even r"
proof -
  assume "of_int N \<le> r"
  then have "N \<le> \<lfloor>r\<rfloor>" by (simp add: le_floor_iff)
  then show ?thesis by (simp add: round_half_even_def Let_def)
qed

lemma round_double_grid:
  assumes "x \<noteq> 0" and "y = of_int m * 2 powi max (floor_log2 \<bar>x\<bar> - 52) (- 1074)"
  shows "x \<le> y \<Longrightarrow> round_double x \<le> y" and "y \<le> x \<Longrightarrow> y \<le> round_double x"
proof -
  define q where "q = max (floor_log2 \<bar>x\<bar> - 52) (- 1074)"
  have pos: "(0::rat) < 2 powi q" by simp
  have rd: "round_double x = of_int (round_half_even (x / 2 powi q)) * 2 powi q"
    using assms(1) by (simp add: round_double_def q_def Let_def)
  have y: "y = of_int m * 2 powi q" using assms(2) by (simp add: q_def)
  {
    assume "x \<le> y"
    then have "x / 2 powi q \<le> of_int m" using pos by (simp add: y pos_divide_le_eq)
    then have "round_half_even (x / 2 powi q) \<le> m" by (rule round_half_even_le)
    then have "(of_int (round_half_even (x / 2 powi q)) :: rat) \<le> of_int m" by simp
    then show "round_double x \<le> y" using pos by (simp add: rd y)
  }
  {
    assume "y \<le> x"
    then have "of_int m \<le> x / 2 powi q" using pos by (simp add: y pos_le_divide_eq)
    then have "m \<le> round_half_even (x / 2 powi q)" by (rule round_half_even_ge)
    then have "(of_int m :: rat) \<le> of_int (round_half_even (x / 2 powi q))" by simp
    then show "y \<le> round_double x" using pos by (simp add: rd y)
  }
qed

lemma powi_split:
  assumes "q \<le> k"
  shows "(2::rat) powi k = of_int (2 ^ nat (k - q)) * 2 powi q"
proof -
  have "(2::rat) powi k = 2 powi (int (nat (k - q)) + q)" using assms by simp
  also have "\<dots> = 2 powi int (nat (k - q)) * 2 powi q"
    by (rule power_int_add) simp
  also have "(2::rat) powi int (nat (k - q)) = of_int (2 ^ nat (k - q))"
    by (simp only: power_int_of_nat of_int_power of_int_numeral)
  finally show ?thesis .
qed

lemma round_double_exact:
  assumes "\<bar>m\<bar> < 2 ^ 53" and "- 1074 \<le> k"
  shows "round_double (of_int m * 2 powi k) = of_int m * 2 powi k"
proof (cases "m = 0")
  case True
  then show ?thesis by (simp add: round_double_def)
next
  case False
  define x :: rat where "x = of_int m * 2 powi k"
  define q where "q = max (floor_log2 \<bar>x\<bar> - 52) (- 1074)"
  have x0: "x \<noteq> 0" using False by (simp add: x_def)
  have ax: "\<bar>x\<bar> = of_int \<bar>m\<bar> * 2 powi k" by (simp add: x_def abs_mult)
  have "(of_int \<bar>m\<bar> :: rat) < of_int (2 ^ 53)" using assms(1) by (simp only: of_int_less_iff)
  then have "\<bar>x\<bar> < 2 powi 53 * 2 powi k" by (simp add: ax)
  also have "\<dots> = 2 powi (53 + k)" by (rule power_int_add [symmetric]) simp
  finally have up: "\<bar>x\<bar> < 2 powi (53 + k)" .
  have "0 < \<bar>x\<bar>" using x0 by simp
  from floor_log2_bounds(1) [OF this] up
  have "(2::rat) powi floor_log2 \<bar>x\<bar> < 2 powi (53 + k)" by simp
  then have "floor_log2 \<bar>x\<bar> < 53 + k" by (rule powi_less_imp_less)
  with assms(2) have qk: "q \<le> k" by (simp add: q_def)
  have y: "x = of_int (m * 2 ^ nat (k - q)) * 2 powi max (floor_log2 \<bar>x\<bar> - 52) (- 1074)"
    using powi_split [OF qk] by (simp add: x_def q_def)
  from round_double_grid [OF x0 y] have "round_double x = x" by simp
  then show ?thesis by (simp add: x_def)
qed

lemma round_double_int:
  assumes "\<bar>n\<bar> \<le> 2 ^ 53"
  shows "round_double (of_int n) = of_int n"
proof (cases "\<bar>n\<bar> < 2 ^ 53")
  case True
  from round_double_exact [OF True, of 0] show ?thesis by simp
next
  case False
  with assms have "n = 2 ^ 53 \<or> n = - (2 ^ 53)" by linarith
  then obtain m :: int where m: "\<bar>m\<bar> < 2 ^ 53" "(of_int n :: rat) = of_int m * 2 powi 53"
  proof
    assume "n = 2 ^ 53"
    then have "\<bar>1::int\<bar> < 2 ^ 53" "(of_int n :: rat) = of_int 1 * 2 powi 53" by simp_all
    then show ?thesis by (rule that)
  next
    assume "n = - (2 ^ 53)"
    then have "\<bar>- 1::int\<bar> < 2 ^ 53" "(of_int n :: rat) = of_int (- 1) * 2 powi 53" by simp_all
    then show ?thesis by (rule that)
  qed
  from round_double_exact [OF m(1), of 53] show ?thesis by (simp add: m(2))
qed



lemma round_double_ge_1:
  assumes "1 \<le> x"
  shows "1 \<le> round_double x"
proof -
  have x0: "x \<noteq> 0" and pos: "0 < \<bar>x\<bar>" and ax: "\<bar>x\<bar> = x" using assms by simp_all
  define e where "e = floor_log2 \<bar>x\<bar>"
  from floor_log2_bounds [OF pos] have b: "2 powi e \<le> x" "x < 2 powi (e + 1)"
    by (simp_all add: e_def ax)
  from b(2) assms have "(2::rat) powi 0 < 2 powi (e + 1)" by simp
  then have e0: "0 \<le> e" using powi_less_imp_less by fastforce
  then have q: "max (floor_log2 \<bar>x\<bar> - 52) (- 1074) = e - 52" by (simp add: e_def)
  have "(2::rat) powi e = of_int (2 ^ nat (e - (e - 52))) * 2 powi (e - 52)"
    by (rule powi_split) simp
  then have "(2::rat) powi e = of_int (2 ^ 52) * 2 powi max (floor_log2 \<bar>x\<bar> - 52) (- 1074)"
    by (simp add: q)
  from round_double_grid(2) [OF x0 this b(1)] have "2 powi e \<le> round_double x" .
  moreover have "(1::rat) \<le> 2 powi e" using e0 by simp
  ultimately show ?thesis by simp
qed

lemma float_exact: "\<bar>n\<bar> \<le> 2 ^ 53 \<Longrightarrow> float n = Inr (of_int n)"
proof -
  assume h: "\<bar>n\<bar> \<le> 2 ^ 53"
  then have "(of_int \<bar>n\<bar> :: rat) \<le> of_int (2 ^ 53)" by (simp only: of_int_le_iff)
  then have "\<bar>of_int n :: rat\<bar> \<le> max_double" by (simp add: max_double_def)
  then show ?thesis by (simp add: float_def round_double_int [OF h] Let_def)
qed

lemma float_positive:
  assumes "1 \<le> n"
  shows "float n = Inl OverflowError \<or> (\<exists>y. float n = Inr y \<and> 1 \<le> y)"
proof -
  have "(1::rat) \<le> of_int n" using assms by simp
  then have "1 \<le> round_double (of_int n)" by (rule round_double_ge_1)
  then show ?thesis by (simp add: float_def Let_def)
qed

section \<open>Quotients of integers as floats\<close>

lemma float_quotient_exact:
  assumes "\<bar>n\<bar> \<le> 2 ^ 53" and "\<bar>m\<bar> \<le> 2 ^ 53" and "m \<noteq> 0"
  shows "float_quotient n m = Inr (round_double (of_int n / of_int m))"
  using assms by (simp add: float_quotient_def float_div_def float_exact)

lemma float_quotient_dvd:
  assumes "\<bar>n\<bar> \<le> 2 ^ 53" and "\<bar>m\<bar> \<le> 2 ^ 53" and "m \<noteq> 0" and "m dvd n"
  shows "float_quotient n m = Inr (of_int (n div m))"
proof -
  from assms(4) obtain k where k: "n = m * k" by (rule dvdE)
  have q: "(of_int n :: rat) / of_int m = of_int k" using assms(3) by (simp add: k)
  have "1 \<le> \<bar>m\<bar>" using assms(3) by linarith
  then have "\<bar>k\<bar> \<le> \<bar>m\<bar> * \<bar>k\<bar>" by (simp add: mult_le_cancel_right1)
  also have "\<dots> = \<bar>n\<bar>" by (simp add: k abs_mult)
  finally have "\<bar>k\<bar> \<le> 2 ^ 53" using assms(1) by simp
  then have "round_double (of_int k) = of_int k" by (rule round_double_int)
  moreover have "n div m = k" using assms(3) by (simp add: k)
  ultimately show ?thesis
    by (simp add: float_quotient_exact [OF assms(1,2,3)] q)
qed

lemma float_quotient_zero_divisor:
  "\<bar>n\<bar> \<le> 2 ^ 53 \<Longrightarrow> float_quotient n 0 = Inl ZeroDivisionError"
  by (simp add: float_quotient_def float_div_def float_exact)

lemma float_quotient_positive:
  assumes "1 \<le> m"
  shows "(\<exists>r. float_quotient n m = Inr r) \<or> float_quotient n m = Inl OverflowError"
proof (cases "float n")
  case (Inl e)
  then have "e = OverflowError" by (auto simp: float_def Let_def split: if_splits)
  with Inl show ?thesis by (simp add: float_quotient_def)
next
  case (Inr x)
  from float_positive [OF assms] show ?thesis
    by (auto simp: float_quotient_def Inr float_div_def)
qed

lemma round_double_half: "round_double (1 / 2) = 1 / 2"
  using round_double_exact [of 1 "- 1"] by simp

lemma float_above_2_53: "float 9007199254740993 = Inr 9007199254740992"
proof -
  have "(2::rat) powi 53 \<le> \<bar>2 ^ 53 + 1\<bar>" "\<bar>2 ^ 53 + 1 :: rat\<bar> < 2 powi (53 + 1)" by simp_all
  then have "floor_log2 \<bar>2 ^ 53 + 1 :: rat\<bar> = 53" by (rule floor_log2_eq)
  then have e: "floor_log2 9007199254740993 = 53" by simp
  have f: "\<lfloor>9007199254740993 / 2 :: rat\<rfloor> = 4503599627370496"
    by (rule floor_unique) simp_all
  have "round_double 9007199254740993 = 9007199254740992"
    by (simp add: round_double_def e Let_def round_half_even_def f)
  then show ?thesis by (simp add: float_def Let_def max_double_def)
qed

lemma float_quotient_above_2_53:
  "float_quotient 9007199254740993 1 = Inr 9007199254740992"
proof -
  have "round_double (of_int 9007199254740992) = of_int 9007199254740992"
    by (rule round_double_int) simp
  then have "round_double 9007199254740992 = 9007199254740992" by simp
  moreover have "float 1 = Inr 1" using float_exact [of 1] by simp
  ultimately show ?thesis
    by (simp add: float_quotient_def float_div_def float_above_2_53)
qed

section \<open>Invariants of the battle loop and of the trials\<close>

lemma battle_bounds:
  "1 \<le> a \<Longrightarrow> 0 \<le> d \<Longrightarrow> battle a d g = (a', d', g') \<Longrightarrow> 1 \<le> a' \<and> 0 \<le> d'"
proof (induction a d g rule: battle.induct)
  case (1 a d g)
  show ?case
  proof (cases "1 < a \<and> 0 < d")
    case True
    obtain a1 d1 g1 where r: "battle_round a d g = (a1, d1, g1)"
      by (cases "battle_round a d g")
    from True r have ge: "1 \<le> a1" "0 \<le> d1"
      using battle_round_decreases(2,3) by blast+
    from "1.prems"(3) True r have "battle a1 d1 g1 = (a', d', g')"
      by (subst (asm) battle.simps) simp
    from "1.IH" [OF True r [symmetric] refl ge this] show ?thesis .
  next
    case False
    with "1.prems" show ?thesis by (simp add: battle_no_fight)
  qed
qed

lemma trials_counts:
  "trials k a d (as, ds, v) g = ((as', ds', v'), g') \<Longrightarrow>
   v' - v = int (length as') - int (length as) \<and>
   length as' + length ds' = length as + length ds + k \<and>
   length as \<le> length as' \<and> length ds \<le> length ds'"
proof (induction k arbitrary: as ds v g)
  case 0
  then show ?case by simp
next
  case (Suc k)
  obtain x y g1 where b: "battle a d g = (x, y, g1)" by (cases "battle a d g")
  show ?case
  proof (cases "y = 0")
    case True
    with Suc.prems b have "trials k a d (as @ [x], ds, v + 1) g1 = ((as', ds', v'), g')"
      by simp
    from Suc.IH [OF this] show ?thesis by simp
  next
    case False
    with Suc.prems b have "trials k a d (as, ds @ [y], v) g1 = ((as', ds', v'), g')"
      by simp
    from Suc.IH [OF this] show ?thesis by simp
  qed
qed

lemma trials_samples:
  assumes "1 \<le> a" and "0 \<le> d"
  shows "trials k a d (as, ds, v) g = ((as', ds', v'), g') \<Longrightarrow>
         \<forall>x\<in>set as. 1 \<le> x \<Longrightarrow> \<forall>y\<in>set ds. 1 \<le> y \<Longrightarrow>
         (\<forall>x\<in>set as'. 1 \<le> x) \<and> (\<forall>y\<in>set ds'. 1 \<le> y)"
proof (induction k arbitrary: as ds v g)
  case 0
  then show ?case by simp
next
  case (Suc k)
  obtain x y g1 where b: "battle a d g = (x, y, g1)" by (cases "battle a d g")
  have bb: "1 \<le> x" "0 \<le> y"
    using battle_bounds [OF assms b] by simp_all
  show ?case
  proof (cases "y = 0")
    case True
    with Suc.prems(1) b have t: "trials k a d (as @ [x], ds, v + 1) g1 = ((as', ds', v'), g')"
      by simp
    have "\<forall>z\<in>set (as @ [x]). 1 \<le> z" using Suc.prems(2) bb(1) by simp
    from Suc.IH [OF t this Suc.prems(3)] show ?thesis .
  next
    case False
    with Suc.prems(1) b have t: "trials k a d (as, ds @ [y], v) g1 = ((as', ds', v'), g')"
      by simp
    have "\<forall>z\<in>set (ds @ [y]). 1 \<le> z" using Suc.prems(3) bb(2) False by simp
    from Suc.IH [OF t Suc.prems(2) this] show ?thesis .
  qed
qed

lemma battle_iterations_bound:
  "1 \<le> a \<Longrightarrow> 0 \<le> d \<Longrightarrow> battle_iterations a d g \<le> nat (a + d - 2)"
proof (induction a d g rule: battle_iterations.induct)
  case (1 a d g)
  show ?case
  proof (cases "1 < a \<and> 0 < d")
    case True
    obtain a1 d1 g1 where r: "battle_round a d g = (a1, d1, g1)"
      by (cases "battle_round a d g")
    from True r have ge: "1 \<le> a1" "0 \<le> d1" and lt: "a1 + d1 < a + d"
      using battle_round_decreases by blast+
    have "battle_iterations a d g = Suc (battle_iterations a1 d1 g1)"
      using True r by (subst battle_iterations.simps) simp
    also have "\<dots> \<le> Suc (nat (a1 + d1 - 2))"
      using "1.IH" [OF True r [symmetric] refl ge] by simp
    also have "\<dots> \<le> nat (a + d - 2)"
      using lt ge True by linarith
    finally show ?thesis .
  next
    case False
    then show ?thesis by (simp add: battle_iterations_no_fight)
  qed
qed

lemma battle_upper: "battle a d g = (a', d', g') \<Longrightarrow> a' \<le> a \<and> d' \<le> d"
proof (induction a d g rule: battle.induct)
  case (1 a d g)
  show ?case
  proof (cases "1 < a \<and> 0 < d")
    case True
    obtain a1 d1 g1 where r: "battle_round a d g = (a1, d1, g1)"
      by (cases "battle_round a d g")
    from battle_round_pairs(4,5) [OF r] have le: "a1 \<le> a" "d1 \<le> d" .
    from "1.prems" True r have "battle a1 d1 g1 = (a', d', g')"
      by (subst (asm) battle.simps) simp
    from "1.IH" [OF True r [symmetric] refl this] le show ?thesis by simp
  next
    case False
    with "1.prems" show ?thesis by (simp add: battle_no_fight)
  qed
qed

lemma trials_samples_upper:
  "trials k a d (as, ds, v) g = ((as', ds', v'), g') \<Longrightarrow>
   \<forall>x\<in>set as. x \<le> a \<Longrightarrow> \<forall>y\<in>set ds. y \<le> d \<Longrightarrow>
   (\<forall>x\<in>set as'. x \<le> a) \<and> (\<forall>y\<in>set ds'. y \<le> d)"
proof (induction k arbitrary: as ds v g)
  case 0
  then show ?case by simp
next
  case (Suc k)
  obtain x y g1 where b: "battle a d g = (x, y, g1)" by (cases "battle a d g")
  have bb: "x \<le> a" "y \<le> d"
    using battle_upper [OF b] by simp_all
  show ?case
  proof (cases "y = 0")
    case True
    with Suc.prems(1) b have t: "trials k a d (as @ [x], ds, v + 1) g1 = ((as', ds', v'), g')"
      by simp
    have "\<forall>z\<in>set (as @ [x]). z \<le> a" using Suc.prems(2) bb(1) by simp
    from Suc.IH [OF t this Suc.prems(3)] show ?thesis .
  next
    case False
    with Suc.prems(1) b have t: "trials k a d (as, ds @ [y], v) g1 = ((as', ds', v'), g')"
      by simp
    have "\<forall>z\<in>set (ds @ [y]). z \<le> d" using Suc.prems(3) bb(2) by simp
    from Suc.IH [OF t Suc.prems(2) this] show ?thesis .
  qed
qed

lemma sum_list_samples_bounds:
  "\<forall>x\<in>set xs. (1::int) \<le> x \<and> x \<le> a \<Longrightarrow> 0 \<le> sum_list xs \<and> sum_list xs \<le> int (length xs) * a"
  by (induction xs) (auto simp: algebra_simps)

section \<open>The cache\<close>

lemma simulate_cached: "sim_cache s (a, d) = Some v \<Longrightarrow> simulate a d t s = Inr (v, s)"
  by (simp add: simulate_def)

lemma simulate_fresh:
  assumes "sim_cache s (a, d) = None" and "simulate a d t s = Inr (v, s')"
  shows "s' = s\<lparr>sim_cache := (sim_cache s)((a, d) \<mapsto> v),
                 random := snd (trials (nat t) a d ([], [], 0) (random s))\<rparr>"
  using assms
  by (auto simp: simulate_def split: prod.splits sum.splits if_splits)

lemma simulate_stores:
  assumes "simulate a d t s = Inr (v, s')"
  shows "sim_cache s' (a, d) = Some v"
proof (cases "sim_cache s (a, d)")
  case None
  from simulate_fresh [OF None assms] show ?thesis by simp
next
  case (Some w)
  with assms show ?thesis by (simp add: simulate_def)
qed

lemma simulate_cache_le:
  assumes "simulate a d t s = Inr (v, s')"
  shows "sim_cache s \<subseteq>\<^sub>m sim_cache s'"
proof (cases "sim_cache s (a, d)")
  case None
  from simulate_fresh [OF None assms] None show ?thesis
    by (auto simp: map_le_def)
next
  case (Some w)
  with assms show ?thesis by (simp add: simulate_def)
qed

lemma later_cache_le: "later s s' \<Longrightarrow> sim_cache s \<subseteq>\<^sub>m sim_cache s'"
proof (induction rule: later.induct)
  case (later_refl s)
  show ?case by simp
next
  case (later_simulate s s1 a d t v s2)
  from later_simulate.IH simulate_cache_le [OF later_simulate.hyps(2)]
  show ?case by (rule map_le_trans)
next
  case (later_random s s1 g)
  then show ?case by simp
qed

section \<open>The aggregated statistics\<close>

lemma simulate_fresh_value:
  assumes "sim_cache s (a, d) = None"
    and "trials (nat t) a d ([], [], 0) (random s) = ((a_survive, d_survive, wins), g)"
    and "float_quotient wins t = Inr p"
    and "(if wins \<noteq> 0 then float_quotient (sum_list a_survive) wins else Inr 0) = Inr sa"
    and "(if t - wins \<noteq> 0 then float_quotient (sum_list d_survive) (t - wins) else Inr 0) =
           Inr sd"
  shows "simulate a d t s =
           Inr ((p, sa, sd), s\<lparr>sim_cache := (sim_cache s)((a, d) \<mapsto> (p, sa, sd)), random := g\<rparr>)"
  using assms by (auto simp: simulate_def split: if_splits)

lemma simulate_raises_only_overflow:
  assumes "1 \<le> t"
  shows "(\<exists>r. simulate a d t s = Inr r) \<or> simulate a d t s = Inl OverflowError"
proof (cases "sim_cache s (a, d)")
  case (Some v)
  then have "simulate a d t s = Inr (v, s)" by (rule simulate_cached)
  then show ?thesis by blast
next
  case None
  obtain a_survive d_survive wins g
    where tr: "trials (nat t) a d ([], [], 0) (random s) = ((a_survive, d_survive, wins), g)"
    by (metis prod.exhaust)
  from trials_counts [OF tr]
  have c1: "wins = int (length a_survive)"
    and c2: "length a_survive + length d_survive = nat t"
    by simp_all
  from c2 have "int (length a_survive) + int (length d_survive) = int (nat t)"
    by (simp only: of_nat_add [symmetric])
  with c1 assms have w: "0 \<le> wins" "wins \<le> t" by simp_all
  have q1: "(\<exists>r. float_quotient wins t = Inr r) \<or> float_quotient wins t = Inl OverflowError"
    using assms by (rule float_quotient_positive)
  have q2: "wins \<noteq> 0 \<Longrightarrow> (\<exists>r. float_quotient (sum_list a_survive) wins = Inr r) \<or>
              float_quotient (sum_list a_survive) wins = Inl OverflowError"
    using w(1) by (intro float_quotient_positive) simp
  have q3: "t - wins \<noteq> 0 \<Longrightarrow>
              (\<exists>r. float_quotient (sum_list d_survive) (t - wins) = Inr r) \<or>
              float_quotient (sum_list d_survive) (t - wins) = Inl OverflowError"
    using w(2) by (intro float_quotient_positive) simp
  from q1 q2 q3 show ?thesis
    by (auto simp: simulate_def None tr)
qed

lemma simulate_no_fight:
  assumes "sim_cache s (a, d) = None" and "\<not> (1 < a \<and> 0 < d)" and "0 < t"
    and "\<bar>a * t\<bar> \<le> 2 ^ 53" and "\<bar>d * t\<bar> \<le> 2 ^ 53" and "\<bar>t\<bar> \<le> 2 ^ 53"
  shows "simulate a d t s =
           (let v = (if d = 0 then (1, of_int a, 0) else (0, 0, of_int d))
            in Inr (v, s\<lparr>sim_cache := (sim_cache s)((a, d) \<mapsto> v)\<rparr>))"
proof (cases "d = 0")
  case True
  have tr: "trials (nat t) a d ([], [], 0) (random s) =
              (([] @ replicate (nat t) a, [], t), random s)"
    using trials_no_fight [OF assms(2), of "nat t" "[]" "[]" 0 "random s"] True assms(3)
    by simp
  have q1: "float_quotient t t = Inr 1"
    using float_quotient_dvd [of t t] assms(3,6) by simp
  have "sum_list ([] @ replicate (nat t) a) = t * a"
    using assms(3) by (simp add: sum_list_replicate_int)
  moreover have "float_quotient (t * a) t = Inr (of_int a)"
    using float_quotient_dvd [of "t * a" t] assms(3,4,6) by (simp add: mult.commute)
  ultimately have q2: "float_quotient (sum_list ([] @ replicate (nat t) a)) t = Inr (of_int a)"
    by simp
  from simulate_fresh_value [OF assms(1) tr, of 1 "of_int a" 0] q1 q2 True assms(3)
  show ?thesis by (simp add: Let_def)
next
  case False
  have tr: "trials (nat t) a d ([], [], 0) (random s) =
              (([], [] @ replicate (nat t) d, 0), random s)"
    using trials_no_fight [OF assms(2), of "nat t" "[]" "[]" 0 "random s"] False by simp
  have q1: "float_quotient 0 t = Inr 0"
    using float_quotient_dvd [of 0 t] assms(3,6) by simp
  have "sum_list ([] @ replicate (nat t) d) = t * d"
    using assms(3) by (simp add: sum_list_replicate_int)
  moreover have "float_quotient (t * d) t = Inr (of_int d)"
    using float_quotient_dvd [of "t * d" t] assms(3,5,6) by (simp add: mult.commute)
  ultimately have q3: "float_quotient (sum_list ([] @ replicate (nat t) d)) (t - 0) =
                         Inr (of_int d)"
    by simp
  from simulate_fresh_value [OF assms(1) tr, of 0 0 "of_int d"] q1 q3 False assms(3)
  show ?thesis by (simp add: Let_def)
qed

lemma simulate_fresh_bounded:
  assumes "1 \<le> a" and "1 \<le> d" and "1 \<le> t"
    and "a * t \<le> 2 ^ 53" and "d * t \<le> 2 ^ 53" and "sim_cache s (a, d) = None"
    and tr: "trials (nat t) a d ([], [], 0) (random s) = ((a_survive, d_survive, wins), g)"
  shows "simulate a d t s =
           Inr ((round_double (of_int wins / of_int t),
                 if wins = 0 then 0 else round_double (of_int (sum_list a_survive) / of_int wins),
                 if wins = t then 0
                 else round_double (of_int (sum_list d_survive) / of_int (t - wins))),
                s\<lparr>sim_cache := (sim_cache s)((a, d) \<mapsto>
                     (round_double (of_int wins / of_int t),
                      if wins = 0 then 0
                      else round_double (of_int (sum_list a_survive) / of_int wins),
                      if wins = t then 0
                      else round_double (of_int (sum_list d_survive) / of_int (t - wins)))),
                   random := g\<rparr>)"
    and "int (length a_survive) = wins" and "int (length d_survive) = t - wins"
    and "0 \<le> sum_list a_survive" and "0 \<le> sum_list d_survive"
proof -
  from trials_counts [OF tr]
  have c1: "wins = int (length a_survive)"
    and c2: "length a_survive + length d_survive = nat t"
    by simp_all
  from c2 have "int (length a_survive) + int (length d_survive) = int (nat t)"
    by (simp only: of_nat_add [symmetric])
  with c1 assms(3)
  show cnt: "int (length a_survive) = wins" "int (length d_survive) = t - wins"
    by simp_all
  then have w: "0 \<le> wins" "wins \<le> t" by linarith+
  have d0: "0 \<le> d" using assms(2) by simp
  from trials_samples [OF assms(1) d0 tr] trials_samples_upper [OF tr]
  have sa: "\<forall>x\<in>set a_survive. 1 \<le> x \<and> x \<le> a" and sd: "\<forall>y\<in>set d_survive. 1 \<le> y \<and> y \<le> d"
    by simp_all
  from sum_list_samples_bounds [OF sa] cnt(1)
  have ba: "0 \<le> sum_list a_survive" "sum_list a_survive \<le> wins * a" by simp_all
  from sum_list_samples_bounds [OF sd] cnt(2)
  have bd: "0 \<le> sum_list d_survive" "sum_list d_survive \<le> (t - wins) * d" by simp_all
  show "0 \<le> sum_list a_survive" and "0 \<le> sum_list d_survive" by (rule ba(1), rule bd(1))
  have "wins * a \<le> t * a" using w(2) assms(1) by (intro mult_right_mono) simp_all
  with ba(2) assms(4) have ua: "sum_list a_survive \<le> 2 ^ 53" by (simp add: mult.commute)
  have "(t - wins) * d \<le> t * d" using w(1) assms(2) by (intro mult_right_mono) simp_all
  with bd(2) assms(5) have ud: "sum_list d_survive \<le> 2 ^ 53" by (simp add: mult.commute)
  have "t * 1 \<le> t * a" using assms(1,3) by (intro mult_left_mono) simp_all
  with assms(4) have ut: "t \<le> 2 ^ 53" by (simp add: mult.commute)
  have q1: "float_quotient wins t = Inr (round_double (of_int wins / of_int t))"
    using w ut assms(3) by (intro float_quotient_exact) simp_all
  have q2: "wins \<noteq> 0 \<Longrightarrow> float_quotient (sum_list a_survive) wins =
              Inr (round_double (of_int (sum_list a_survive) / of_int wins))"
    using w ut ba(1) ua by (intro float_quotient_exact) simp_all
  have q3: "t - wins \<noteq> 0 \<Longrightarrow> float_quotient (sum_list d_survive) (t - wins) =
              Inr (round_double (of_int (sum_list d_survive) / of_int (t - wins)))"
    using w ut bd(1) ud by (intro float_quotient_exact) simp_all
  show "simulate a d t s =
           Inr ((round_double (of_int wins / of_int t),
                 if wins = 0 then 0 else round_double (of_int (sum_list a_survive) / of_int wins),
                 if wins = t then 0
                 else round_double (of_int (sum_list d_survive) / of_int (t - wins))),
                s\<lparr>sim_cache := (sim_cache s)((a, d) \<mapsto>
                     (round_double (of_int wins / of_int t),
                      if wins = 0 then 0
                      else round_double (of_int (sum_list a_survive) / of_int wins),
                      if wins = t then 0
                      else round_double (of_int (sum_list d_survive) / of_int (t - wins)))),
                   random := g\<rparr>)"
    using q1 q2 q3 by (intro simulate_fresh_value [OF assms(6) tr]) auto
qed

lemma simulate_bounded_returns:
  assumes "1 \<le> a" and "1 \<le> d" and "1 \<le> t" and "a * t \<le> 2 ^ 53" and "d * t \<le> 2 ^ 53"
  shows "\<exists>r. simulate a d t s = Inr r"
proof (cases "sim_cache s (a, d)")
  case (Some v)
  then have "simulate a d t s = Inr (v, s)" by (rule simulate_cached)
  then show ?thesis by blast
next
  case None
  obtain a_survive d_survive wins g
    where tr: "trials (nat t) a d ([], [], 0) (random s) = ((a_survive, d_survive, wins), g)"
    by (metis prod.exhaust)
  from simulate_fresh_bounded(1) [OF assms None tr] show ?thesis by blast
qed

section \<open>Two concrete runs of two attackers against one defender\<close>

text \<open>
  With raw draws 5, 0, 0, 0 the first trial shows dice 6 against 1 and the attacker
  wins; a second trial shows 1 against 1 and the attacker loses a unit.
\<close>

lemma simulate_2_1_once:
  "simulate 2 1 1 \<lparr>sim_cache = Map.empty, random = mock_random [5, 0]\<rparr> =
     Inr ((1, 2, 0),
          \<lparr>sim_cache = [(2, 1) \<mapsto> (1, 2, 0)], random = (mock_random [5, 0])\<lparr>drawn := 2\<rparr>\<rparr>)"
  by (simp add: simulate_def battle.simps battle_round_def Let_def sorted_reverse_def
      randint_def mock_random_def float_quotient_dvd)

lemma simulate_2_1_twice:
  "simulate 2 1 2 \<lparr>sim_cache = Map.empty, random = mock_random [5, 0]\<rparr> =
     Inr ((1 / 2, 2, 1),
          \<lparr>sim_cache = [(2, 1) \<mapsto> (1 / 2, 2, 1)],
           random = (mock_random [5, 0])\<lparr>drawn := 4\<rparr>\<rparr>)"
  by (simp add: simulate_def battle.simps battle_round_def Let_def sorted_reverse_def
      randint_def mock_random_def numeral_2_eq_2 float_quotient_dvd float_quotient_exact
      round_double_half)

section \<open>Counting the dice comparisons of one round\<close>

lemma zip_as_map_nth:
  "zip xs ys = map (\<lambda>i. (xs ! i, ys ! i)) [0..<min (length xs) (length ys)]"
  by (rule nth_equalityI) simp_all

lemma filter_zip_count:
  "length (filter P (zip xs ys)) =
     length (filter (\<lambda>i. P (xs ! i, ys ! i)) [0..<min (length xs) (length ys)])"
proof -
  have "length (filter P (zip xs ys)) =
          length (filter P (map (\<lambda>i. (xs ! i, ys ! i)) [0..<min (length xs) (length ys)]))"
    using zip_as_map_nth [of xs ys] by simp
  also have "\<dots> = length (filter (\<lambda>i. P (xs ! i, ys ! i)) [0..<min (length xs) (length ys)])"
    by (simp add: filter_map comp_def)
  finally show ?thesis .
qed

lemma sorted_reverse_props:
  "length (sorted_reverse xs) = length xs" "mset (sorted_reverse xs) = mset xs"
  "sorted (rev (sorted_reverse xs))"
  by (simp_all add: sorted_reverse_def)

lemma rolls_unfold:
  "rolls n g =
     (if n = 0 then ([], g)
      else (case randint 1 6 g of (x, g1) \<Rightarrow>
              (case rolls (n - 1) g1 of (xs, g2) \<Rightarrow> (x # xs, g2))))"
  by (cases n) simp_all

section \<open>Sorting by area, choosing and counting\<close>

lemma list_index_found: "x \<in> set xs \<Longrightarrow> \<exists>i. list_index xs x = Inr i"
  by (induction xs) auto

lemma area_keys_known:
  "\<forall>t\<in>set ts. area t \<in> set prio \<Longrightarrow> \<exists>kts. area_keys prio ts = Inr kts \<and> map snd kts = ts"
proof (induction ts)
  case Nil
  then show ?case by simp
next
  case (Cons t ts)
  then obtain i where i: "list_index prio (area t) = Inr i"
    using list_index_found [of "area t" prio] by auto
  from Cons obtain kts where k: "area_keys prio ts = Inr kts" "map snd kts = ts" by auto
  show ?case by (simp add: i k)
qed

lemma sorted_by_area_known:
  assumes "\<forall>t\<in>set ts. area t \<in> set (area_priority self)"
  shows "\<exists>srt. sorted_by_area self ts = Inr srt \<and> set srt = set ts \<and> length srt = length ts"
proof -
  from area_keys_known [OF assms] obtain kts
    where k: "area_keys (area_priority self) ts = Inr kts" "map snd kts = ts" by blast
  have "set (map snd (sort_key fst kts)) = set (map snd kts)" by simp
  moreover have "length (map snd (sort_key fst kts)) = length (map snd kts)" by simp
  ultimately show ?thesis by (simp add: sorted_by_area_def k)
qed

lemma BetterAI_priority_known:
  assumes "\<forall>t\<in>set (territories self). border t \<longrightarrow> area t \<in> set (area_priority self)"
  shows "\<exists>p. BetterAI_priority self = Inr p \<and> set p \<subseteq> set (territories self) \<and>
             (territories self \<noteq> [] \<longrightarrow> p \<noteq> [])"
proof -
  have "\<forall>t\<in>set (filter border (territories self)). area t \<in> set (area_priority self)"
    using assms by simp
  from sorted_by_area_known [OF this] obtain srt
    where s: "sorted_by_area self (filter border (territories self)) = Inr srt"
      "set srt = set (filter border (territories self))" by blast
  let ?p' = "filter (\<lambda>t. area t = area (hd srt)) srt"
  have "set ?p' \<subseteq> set (territories self)" using s(2) by auto
  then show ?thesis by (auto simp: BetterAI_priority_def s(1) Let_def)
qed

lemma choice_member:
  "seq \<noteq> [] \<Longrightarrow> \<exists>x g'. choice seq g = Inr (x, g') \<and> x \<in> set seq"
  by (simp add: choice_def)

lemma increment_keys: "fst ` set (increment result t) = insert t (fst ` set result)"
  by (induction result t rule: increment.induct) auto

lemma increment_sum: "sum_list (map snd (increment result t)) = sum_list (map snd result) + 1"
  by (induction result t rule: increment.induct) auto

lemma increment_positive:
  "\<forall>n\<in>snd ` set result. 1 \<le> n \<Longrightarrow> \<forall>n\<in>snd ` set (increment result t). 1 \<le> n"
  by (induction result t rule: increment.induct) auto

lemma increment_distinct:
  "distinct (map fst result) \<Longrightarrow> distinct (map fst (increment result t))"
proof (induction result t rule: increment.induct)
  case (1 t)
  then show ?case by simp
next
  case (2 k n kns t)
  have "fst ` set (increment kns t) = insert t (fst ` set kns)" by (rule increment_keys)
  with 2 show ?case by auto
qed

lemma reinforce_loop_returns:
  assumes "priority \<noteq> []"
  shows "available = int n \<Longrightarrow>
         \<exists>res g'. reinforce_loop priority available result g = Some (Inr (res, g')) \<and>
           fst ` set res \<subseteq> fst ` set result \<union> set priority \<and>
           sum_list (map snd res) = sum_list (map snd result) + available \<and>
           ((\<forall>m\<in>snd ` set result. 1 \<le> m) \<longrightarrow> (\<forall>m\<in>snd ` set res. 1 \<le> m)) \<and>
           (distinct (map fst result) \<longrightarrow> distinct (map fst res))"
proof (induction n arbitrary: available result g)
  case 0
  then show ?case by (subst reinforce_loop.simps) simp
next
  case (Suc n)
  from choice_member [OF assms] obtain t g1
    where c: "choice priority g = Inr (t, g1)" "t \<in> set priority" by blast
  have av: "available - 1 = int n" "available \<noteq> 0" using Suc.prems by simp_all
  from Suc.IH [OF av(1), of "increment result t" g1] obtain res g'
    where r: "reinforce_loop priority (available - 1) (increment result t) g1 =
                Some (Inr (res, g'))"
      "fst ` set res \<subseteq> fst ` set (increment result t) \<union> set priority"
      "sum_list (map snd res) = sum_list (map snd (increment result t)) + (available - 1)"
      "(\<forall>m\<in>snd ` set (increment result t). 1 \<le> m) \<longrightarrow> (\<forall>m\<in>snd ` set res. 1 \<le> m)"
      "distinct (map fst (increment result t)) \<longrightarrow> distinct (map fst res)"
    by blast
  have e: "reinforce_loop priority available result g = Some (Inr (res, g'))"
    by (subst reinforce_loop.simps) (simp add: av(2) c(1) r(1))
  have k: "fst ` set res \<subseteq> fst ` set result \<union> set priority"
    using r(2) c(2) by (auto simp: increment_keys)
  have su: "sum_list (map snd res) = sum_list (map snd result) + available"
    using r(3) by (simp add: increment_sum)
  have po: "(\<forall>m\<in>snd ` set result. 1 \<le> m) \<longrightarrow> (\<forall>m\<in>snd ` set res. 1 \<le> m)"
    using r(4) increment_positive [of result t] by blast
  have di: "distinct (map fst result) \<longrightarrow> distinct (map fst res)"
    using r(5) increment_distinct [of result t] by blast
  from e k su po di show ?case by blast
qed

lemma reinforce_for_returns:
  assumes "border_list \<noteq> []"
  shows "\<exists>res g'. reinforce_for n border_list result g = Inr (res, g') \<and>
           fst ` set res \<subseteq> fst ` set result \<union> set border_list \<and>
           sum_list (map snd res) = sum_list (map snd result) + int n \<and>
           ((\<forall>m\<in>snd ` set result. 1 \<le> m) \<longrightarrow> (\<forall>m\<in>snd ` set res. 1 \<le> m)) \<and>
           (distinct (map fst result) \<longrightarrow> distinct (map fst res))"
proof (induction n arbitrary: result g)
  case 0
  then show ?case by simp
next
  case (Suc n)
  from choice_member [OF assms] obtain t g1
    where c: "choice border_list g = Inr (t, g1)" "t \<in> set border_list" by blast
  from Suc.IH [of "increment result t" g1] obtain res g'
    where r: "reinforce_for n border_list (increment result t) g1 = Inr (res, g')"
      "fst ` set res \<subseteq> fst ` set (increment result t) \<union> set border_list"
      "sum_list (map snd res) = sum_list (map snd (increment result t)) + int n"
      "(\<forall>m\<in>snd ` set (increment result t). 1 \<le> m) \<longrightarrow> (\<forall>m\<in>snd ` set res. 1 \<le> m)"
      "distinct (map fst (increment result t)) \<longrightarrow> distinct (map fst res)"
    by blast
  have e: "reinforce_for (Suc n) border_list result g = Inr (res, g')"
    by (simp add: c(1) r(1))
  have k: "fst ` set res \<subseteq> fst ` set result \<union> set border_list"
    using r(2) c(2) by (auto simp: increment_keys)
  have su: "sum_list (map snd res) = sum_list (map snd result) + int (Suc n)"
    using r(3) by (simp add: increment_sum)
  have po: "(\<forall>m\<in>snd ` set result. 1 \<le> m) \<longrightarrow> (\<forall>m\<in>snd ` set res. 1 \<le> m)"
    using r(4) increment_positive [of result t] by blast
  have di: "distinct (map fst result) \<longrightarrow> distinct (map fst res)"
    using r(5) increment_distinct [of result t] by blast
  from e k su po di show ?case by blast
qed

section \<open>Arguments outside the documented range\<close>

text \<open>
  Claim C1, as amended.  \<open>simulate\<close> validates nothing.  On a key that is not cached and
  with \<open>|n_atk * tests|\<close>, \<open>|n_def * tests|\<close> and \<open>|tests|\<close> at most \<open>2 ^ 53\<close>, where the
  float arithmetic is exact, a call with \<open>n_atk < 1\<close>, \<open>n_def < 1\<close> or \<open>tests < 1\<close> rolls
  no die and
  \<^item> raises ZeroDivisionError when \<open>tests = 0\<close>;
  \<^item> returns and caches \<open>(0, 0, 0)\<close> when \<open>tests < 0\<close>;
  \<^item> otherwise returns and caches \<open>(1, n_atk, 0)\<close> when \<open>n_def = 0\<close> and
    \<open>(0, 0, n_def)\<close> when \<open>n_def \<noteq> 0\<close>.
\<close>

theorem simulate_without_validation:
  assumes "sim_cache s (a, d) = None" and "a < 1 \<or> d < 1 \<or> t < 1"
    and "\<bar>a * t\<bar> \<le> 2 ^ 53" and "\<bar>d * t\<bar> \<le> 2 ^ 53" and "\<bar>t\<bar> \<le> 2 ^ 53"
  shows "simulate a d t s =
           (if t = 0 then Inl ZeroDivisionError
            else let v = (if t < 0 then (0, 0, 0)
                          else if d = 0 then (1, of_int a, 0)
                          else (0, 0, of_int d))
                 in Inr (v, s\<lparr>sim_cache := (sim_cache s)((a, d) \<mapsto> v)\<rparr>))"
proof -
  consider "t = 0" | "t < 0" | "0 < t" by linarith
  then show ?thesis
  proof cases
    case 1
    then show ?thesis
      using assms(1) by (simp add: simulate_def float_quotient_zero_divisor)
  next
    case 2
    have q: "float_quotient 0 t = Inr 0"
      using float_quotient_dvd [of 0 t] assms(5) 2 by simp
    from 2 have tr: "trials (nat t) a d ([], [], 0) (random s) = (([], [], 0), random s)"
      by simp
    from simulate_fresh_value [OF assms(1) tr, of 0 0 0] q 2 show ?thesis
      by (simp add: Let_def)
  next
    case 3
    with assms(2) have nf: "\<not> (1 < a \<and> 0 < d)" by auto
    from simulate_no_fight [OF assms(1) nf 3 assms(3,4,5)] 3 show ?thesis
      by (simp add: Let_def)
  qed
qed

text \<open>
  The amended statement at a concrete call: three attackers against no defender, two
  trials, empty cache.
\<close>

theorem simulate_without_validation_witness:
  "sim_cache \<lparr>sim_cache = Map.empty, random = mock_random []\<rparr> (3, 0) = None \<and>
   ((3::int) < 1 \<or> (0::int) < 1 \<or> (2::int) < 1) \<and>
   \<bar>3 * 2 :: int\<bar> \<le> 2 ^ 53 \<and> \<bar>0 * 2 :: int\<bar> \<le> 2 ^ 53 \<and> \<bar>2 :: int\<bar> \<le> 2 ^ 53 \<and>
   simulate 3 0 2 \<lparr>sim_cache = Map.empty, random = mock_random []\<rparr> =
     Inr ((1, 3, 0), \<lparr>sim_cache = [(3, 0) \<mapsto> (1, 3, 0)], random = mock_random []\<rparr>)"
  using simulate_without_validation
    [of "\<lparr>sim_cache = Map.empty, random = mock_random []\<rparr>" 3 0 2]
  by (simp add: Let_def)

text \<open>
  Claim C1 as stated fails: with no attacker at all, \<open>simulate(0, 1, 1)\<close> on an empty
  cache returns a statistics triple and stores it under the key \<open>(0, 1)\<close>.
\<close>

theorem simulate_no_attacker_counterexample:
  "simulate 0 1 1 \<lparr>sim_cache = Map.empty, random = mock_random []\<rparr> =
     Inr ((0, 0, 1), \<lparr>sim_cache = [(0, 1) \<mapsto> (0, 0, 1)], random = mock_random []\<rparr>)"
  by (simp add: simulate_def battle.simps float_quotient_dvd)

text \<open>
  Why the amended statement is bounded: \<open>2 ^ 53 + 1\<close> attackers against no defender are
  reported as \<open>2 ^ 53\<close> survivors, the nearest double.
\<close>

lemma simulate_large_attacker_rounded:
  "simulate 9007199254740993 0 1 \<lparr>sim_cache = Map.empty, random = mock_random []\<rparr> =
     Inr ((1, 9007199254740992, 0),
          \<lparr>sim_cache = [(9007199254740993, 0) \<mapsto> (1, 9007199254740992, 0)],
           random = mock_random []\<rparr>)"
  by (simp add: simulate_def battle.simps float_quotient_dvd float_quotient_above_2_53)

section \<open>The base class\<close>

text \<open>
  Claim C7, as amended.  On the base class, \<open>initial_placement\<close>, \<open>reinforce\<close> and
  \<open>attack\<close> raise NotImplementedError; \<open>freemove\<close> has a default and returns
  \<open>None\<close>, the decision to skip the free move.
\<close>

theorem AI_base_decisions:
  "AI_initial_placement self empty_ts remaining = Inl NotImplementedError \<and>
   AI_reinforce self available = Inl NotImplementedError \<and>
   AI_attack self = Inl NotImplementedError \<and>
   AI_freemove self = Inr None"
  by (simp add: AI_initial_placement_def AI_reinforce_def AI_attack_def AI_freemove_def)

text \<open>
  Claim C7 as stated fails for \<open>freemove\<close>: called on the base class it does not raise.
\<close>

theorem AI_freemove_counterexample:
  "AI_freemove \<lparr>territories = [], area_priority = []\<rparr> \<noteq> Inl NotImplementedError"
  by (simp add: AI_freemove_def)

section \<open>Caching\<close>

text \<open>
  Claim C2.  Once \<open>simulate(a, d, t)\<close> has returned statistics \<open>v\<close>, every later call
  for the same key, with any number of trials and after any other calls of \<open>simulate\<close>
  and any use of the random source, returns \<open>v\<close> and leaves the whole state as it is:
  no die is rolled and the cache is not written.  Every call, and every later state,
  keeps each cache entry with its value: nothing is removed or overwritten.
\<close>

theorem simulate_cache_idempotent:
  assumes "simulate a d t s = Inr (v, s1)" and "later s1 s2"
  shows "simulate a d t' s2 = Inr (v, s2) \<and>
         sim_cache s \<subseteq>\<^sub>m sim_cache s1 \<and> sim_cache s1 \<subseteq>\<^sub>m sim_cache s2"
proof -
  have le: "sim_cache s1 \<subseteq>\<^sub>m sim_cache s2"
    using assms(2) by (rule later_cache_le)
  have "sim_cache s1 (a, d) = Some v"
    using assms(1) by (rule simulate_stores)
  with le have "sim_cache s2 (a, d) = Some v"
    by (metis domI map_le_def)
  then have "simulate a d t' s2 = Inr (v, s2)" by (rule simulate_cached)
  with le simulate_cache_le [OF assms(1)] show ?thesis by simp
qed

text \<open>
  A concrete run for C2: the first call stores \<open>(0, 0, 1)\<close> for the key \<open>(1, 1)\<close>; after
  the random source has been replaced, a call with 500 trials returns the stored triple.
\<close>

theorem simulate_cache_idempotent_witness:
  "simulate 1 1 1 \<lparr>sim_cache = Map.empty, random = mock_random []\<rparr> =
     Inr ((0, 0, 1), \<lparr>sim_cache = [(1, 1) \<mapsto> (0, 0, 1)], random = mock_random []\<rparr>) \<and>
   later \<lparr>sim_cache = [(1, 1) \<mapsto> (0, 0, 1)], random = mock_random []\<rparr>
         \<lparr>sim_cache = [(1, 1) \<mapsto> (0, 0, 1)], random = mock_random [4]\<rparr> \<and>
   simulate 1 1 500 \<lparr>sim_cache = [(1, 1) \<mapsto> (0, 0, 1)], random = mock_random [4]\<rparr> =
     Inr ((0, 0, 1), \<lparr>sim_cache = [(1, 1) \<mapsto> (0, 0, 1)], random = mock_random [4]\<rparr>)"
proof -
  let ?s = "\<lparr>sim_cache = Map.empty, random = mock_random []\<rparr>"
  let ?s1 = "\<lparr>sim_cache = [(1, 1) \<mapsto> (0, 0, 1)], random = mock_random []\<rparr>"
  let ?s2 = "\<lparr>sim_cache = [(1, 1) \<mapsto> (0, 0, 1)], random = mock_random [4]\<rparr>"
  have h1: "simulate 1 1 1 ?s = Inr ((0, 0, 1), ?s1)"
    by (simp add: simulate_def battle.simps float_quotient_dvd)
  have "later ?s1 (?s1\<lparr>random := mock_random [4]\<rparr>)"
    by (intro later_random later_refl)
  then have h2: "later ?s1 ?s2" by simp
  from simulate_cache_idempotent [OF h1 h2, of 500] h1 h2 show ?thesis by simp
qed

text \<open>
  Claim C10.  The cache key is \<open>(n_atk, n_def)\<close> only.  After \<open>simulate(a, d, t1)\<close> has
  computed and stored statistics \<open>v\<close>, a call \<open>simulate(a, d, t2)\<close> returns \<open>v\<close>, whose
  victory probability is \<^verbatim>\<open>float(victory) / t1\<close> for the number of victories among
  the \<open>t1\<close> trials, and changes nothing, whatever \<open>t2\<close> is.
\<close>

theorem simulate_ignores_tests_when_cached:
  assumes "sim_cache s (a, d) = None" and "simulate a d t1 s = Inr (v, s1)"
  shows "simulate a d t2 s1 = Inr (v, s1) \<and>
         float_quotient (snd (snd (fst (trials (nat t1) a d ([], [], 0) (random s))))) t1 =
           Inr (probability_of_victory v)"
proof -
  have "sim_cache s1 (a, d) = Some v"
    using assms(2) by (rule simulate_stores)
  then have "simulate a d t2 s1 = Inr (v, s1)" by (rule simulate_cached)
  moreover have "float_quotient (snd (snd (fst (trials (nat t1) a d ([], [], 0) (random s))))) t1 =
           Inr (probability_of_victory v)"
    using assms
    by (auto simp: simulate_def probability_of_victory_def split: prod.splits sum.splits)
  ultimately show ?thesis by simp
qed

text \<open>
  A concrete run for C10: one trial of 2 against 1 with dice 6 and 1 stores \<open>(1, 2, 0)\<close>;
  the next call asks for two trials and gets \<open>(1, 2, 0)\<close> again, although two trials on
  the same dice from an empty cache give \<open>(1/2, 2, 1)\<close>.
\<close>

theorem simulate_ignores_tests_when_cached_witness:
  "sim_cache \<lparr>sim_cache = Map.empty, random = mock_random [5, 0]\<rparr> (2, 1) = None \<and>
   simulate 2 1 1 \<lparr>sim_cache = Map.empty, random = mock_random [5, 0]\<rparr> =
     Inr ((1, 2, 0),
          \<lparr>sim_cache = [(2, 1) \<mapsto> (1, 2, 0)], random = (mock_random [5, 0])\<lparr>drawn := 2\<rparr>\<rparr>) \<and>
   simulate 2 1 2
       \<lparr>sim_cache = [(2, 1) \<mapsto> (1, 2, 0)], random = (mock_random [5, 0])\<lparr>drawn := 2\<rparr>\<rparr> =
     Inr ((1, 2, 0),
          \<lparr>sim_cache = [(2, 1) \<mapsto> (1, 2, 0)], random = (mock_random [5, 0])\<lparr>drawn := 2\<rparr>\<rparr>) \<and>
   map_sum id fst (simulate 2 1 2 \<lparr>sim_cache = Map.empty, random = mock_random [5, 0]\<rparr>) =
     Inr (1 / 2, 2, 1)"
proof -
  let ?s = "\<lparr>sim_cache = Map.empty, random = mock_random [5, 0]\<rparr>"
  have h0: "sim_cache ?s (2, 1) = None" by simp
  note h1 = simulate_2_1_once
  have h2: "map_sum id fst (simulate 2 1 2 ?s) = Inr (1 / 2, 2, 1)"
    by (simp add: simulate_2_1_twice)
  from simulate_ignores_tests_when_cached [OF h0 h1, of 2] h0 h1 h2 show ?thesis by simp
qed

section \<open>The attacker with a single unit\<close>

text \<open>
  Claim C3, as amended.  For \<open>d \<ge> 1\<close> and \<open>tests \<ge> 1\<close> with \<open>d * tests \<le> 2 ^ 53\<close>, a call
  \<open>simulate(1, d, tests)\<close> on a key that is not cached returns victory probability 0,
  average attacker survivors 0 and average defender survivors \<open>d\<close>, without rolling a
  die: the loop body never runs, and every trial records \<open>d\<close> surviving defenders and no
  victory.
\<close>

theorem simulate_degenerate_attacker:
  assumes "1 \<le> d" and "1 \<le> t" and "d * t \<le> 2 ^ 53" and "sim_cache s (1, d) = None"
  shows "simulate 1 d t s =
           Inr ((0, 0, of_int d), s\<lparr>sim_cache := (sim_cache s)((1, d) \<mapsto> (0, 0, of_int d))\<rparr>) \<and>
         battle_iterations 1 d g = 0 \<and>
         trials (nat t) 1 d ([], [], 0) g = (([], replicate (nat t) d, 0), g)"
proof -
  have nf: "\<not> (1 < (1::int) \<and> 0 < d)" by simp
  have "t \<le> d * t" using assms(1,2) by (simp add: mult_le_cancel_right1)
  with assms(2,3) have tb: "\<bar>t\<bar> \<le> 2 ^ 53" by linarith
  have db: "\<bar>d * t\<bar> \<le> 2 ^ 53" using assms(1,2,3) by (simp add: abs_mult)
  have ab: "\<bar>1 * t\<bar> \<le> 2 ^ 53" using tb by simp
  have "simulate 1 d t s =
          Inr ((0, 0, of_int d), s\<lparr>sim_cache := (sim_cache s)((1, d) \<mapsto> (0, 0, of_int d))\<rparr>)"
    using simulate_no_fight [OF assms(4) nf _ ab db tb] assms(1,2)
    by (simp add: Let_def)
  moreover have "battle_iterations 1 d g = 0"
    using nf by (rule battle_iterations_no_fight)
  moreover have "trials (nat t) 1 d ([], [], 0) g = (([], replicate (nat t) d, 0), g)"
    using assms(1) by (simp add: trials_no_fight [OF nf])
  ultimately show ?thesis by simp
qed

text \<open>A concrete run for C3: one attacker against four defenders, three trials.\<close>

theorem simulate_degenerate_attacker_witness:
  "(1::int) \<le> 4 \<and> (1::int) \<le> 3 \<and> (4::int) * 3 \<le> 2 ^ 53 \<and>
   sim_cache \<lparr>sim_cache = Map.empty, random = mock_random [5, 5]\<rparr> (1, 4) = None \<and>
   simulate 1 4 3 \<lparr>sim_cache = Map.empty, random = mock_random [5, 5]\<rparr> =
     Inr ((0, 0, 4), \<lparr>sim_cache = [(1, 4) \<mapsto> (0, 0, 4)], random = mock_random [5, 5]\<rparr>)"
  using simulate_degenerate_attacker
    [of 4 3 "\<lparr>sim_cache = Map.empty, random = mock_random [5, 5]\<rparr>"]
  by simp

text \<open>
  Claim C3 as stated fails for large \<open>d\<close>: the average is a float, and
  \<^verbatim>\<open>float(2 ** 53 + 1)\<close> is \<open>2 ^ 53\<close>, so one attacker against \<open>2 ^ 53 + 1\<close> defenders
  is reported with \<open>2 ^ 53\<close> surviving defenders.
\<close>

theorem simulate_degenerate_attacker_counterexample:
  "simulate 1 9007199254740993 1 \<lparr>sim_cache = Map.empty, random = mock_random []\<rparr> =
     Inr ((0, 0, 9007199254740992),
          \<lparr>sim_cache = [(1, 9007199254740993) \<mapsto> (0, 0, 9007199254740992)],
           random = mock_random []\<rparr>) \<and>
   (9007199254740992 :: rat) \<noteq> of_int 9007199254740993"
  by (simp add: simulate_def battle.simps float_quotient_dvd float_quotient_above_2_53)

section \<open>Termination\<close>

text \<open>
  Claim C6.  Every pass through the loop body, entered with \<open>a > 1\<close> and \<open>d > 0\<close>,
  lowers \<open>a + d\<close> by at least one.  Hence a battle started with \<open>a \<ge> 1\<close> and \<open>d \<ge> 1\<close>
  runs the body at most \<open>a + d - 2\<close> times, and \<open>simulate\<close> with \<open>tests \<ge> 1\<close> ends: it
  returns a result or raises OverflowError, and it returns a result whenever
  \<open>a * tests\<close> and \<open>d * tests\<close> are at most \<open>2 ^ 53\<close>.  (All loops of \<open>simulate\<close> are total
  functions here: \<open>battle\<close> by the termination proof above, \<open>trials\<close> by recursion on the
  number of trials left.)
\<close>

theorem battle_loop_terminates:
  assumes "1 \<le> a" and "1 \<le> d"
  shows "(1 < a1 \<and> 0 < d1 \<longrightarrow>
            (case battle_round a1 d1 g1 of (a', d', g') \<Rightarrow> a' + d' \<le> a1 + d1 - 1)) \<and>
         battle_iterations a d g \<le> nat (a + d - 2) \<and>
         (1 \<le> t \<longrightarrow> (\<exists>r. simulate a d t s = Inr r) \<or> simulate a d t s = Inl OverflowError) \<and>
         (1 \<le> t \<and> a * t \<le> 2 ^ 53 \<and> d * t \<le> 2 ^ 53 \<longrightarrow> (\<exists>r. simulate a d t s = Inr r))"
proof (intro conjI impI)
  assume h: "1 < a1 \<and> 0 < d1"
  obtain a' d' g' where r: "battle_round a1 d1 g1 = (a', d', g')"
    by (cases "battle_round a1 d1 g1")
  from battle_round_decreases(1) [OF _ _ r] h
  show "case battle_round a1 d1 g1 of (a', d', g') \<Rightarrow> a' + d' \<le> a1 + d1 - 1"
    by (simp add: r)
next
  show "battle_iterations a d g \<le> nat (a + d - 2)"
    using assms by (intro battle_iterations_bound) simp_all
next
  assume "1 \<le> t"
  then show "(\<exists>r. simulate a d t s = Inr r) \<or> simulate a d t s = Inl OverflowError"
    by (rule simulate_raises_only_overflow)
next
  assume "1 \<le> t \<and> a * t \<le> 2 ^ 53 \<and> d * t \<le> 2 ^ 53"
  with assms show "\<exists>r. simulate a d t s = Inr r"
    by (intro simulate_bounded_returns) simp_all
qed

text \<open>
  A concrete battle for C6: two attackers against one defender, dice 6 and 1.
\<close>

theorem battle_loop_terminates_witness:
  "(1::int) \<le> 2 \<and> (1::int) \<le> 1 \<and> ((1::int) < 2 \<and> (0::int) < 1) \<and>
   ((1::int) \<le> 1 \<and> (2::int) * 1 \<le> 2 ^ 53 \<and> (1::int) * 1 \<le> 2 ^ 53) \<and>
   (case battle_round 2 1 (mock_random [5, 0]) of (a', d', g') \<Rightarrow> a' + d' \<le> 2 + 1 - 1) \<and>
   battle_iterations 2 1 (mock_random [5, 0]) \<le> nat (2 + 1 - 2) \<and>
   (\<exists>r. simulate 2 1 1 \<lparr>sim_cache = Map.empty, random = mock_random [5, 0]\<rparr> = Inr r)"
  using battle_loop_terminates
    [where a = 2 and d = 1 and ?a1.0 = 2 and ?d1.0 = 1 and ?g1.0 = "mock_random [5, 0]"
       and g = "mock_random [5, 0]" and t = 1
       and s = "\<lparr>sim_cache = Map.empty, random = mock_random [5, 0]\<rparr>"]
  by simp

section \<open>Aggregation\<close>




section \<open>One exchange of dice\<close>

text \<open>
  Claim C4.  In a pass through the loop body with \<open>a > 1\<close> and \<open>d > 0\<close> the attacker
  rolls \<open>min(a - 1, 3)\<close> dice and then the defender \<open>min(d, 2)\<close> dice, each die between
  1 and 6; each side's roll is rearranged in descending order; with \<open>n\<close> the shorter of
  the two lengths, \<open>a\<close> drops by the number of positions \<open>i < n\<close> where the attacker's
  die is not greater than the defender's, and \<open>d\<close> by the number of positions where it is
  strictly greater; dice beyond position \<open>n\<close> play no part.  With attacker dice
  \<open>[6, 5, 4]\<close> and defender dice \<open>[6, 3]\<close> the exchange costs one attacker and one
  defender.
\<close>

theorem battle_round_exchange:
  assumes "1 < a" and "0 < d"
  shows "let ar = fst (rolls (nat (min (a - 1) 3)) g);
             g1 = snd (rolls (nat (min (a - 1) 3)) g);
             dr = fst (rolls (nat (min d 2)) g1);
             g2 = snd (rolls (nat (min d 2)) g1);
             atk_roll = sorted_reverse ar;
             def_roll = sorted_reverse dr;
             n = min (length atk_roll) (length def_roll)
         in int (length ar) = min (a - 1) 3 \<and> int (length dr) = min d 2 \<and>
            (\<forall>x\<in>set ar \<union> set dr. 1 \<le> x \<and> x \<le> 6) \<and>
            mset atk_roll = mset ar \<and> sorted (rev atk_roll) \<and>
            mset def_roll = mset dr \<and> sorted (rev def_roll) \<and>
            battle_round a d g =
              (a - int (length (filter (\<lambda>i. \<not> atk_roll ! i > def_roll ! i) [0..<n])),
               d - int (length (filter (\<lambda>i. atk_roll ! i > def_roll ! i) [0..<n])),
               g2) \<and>
            drawn g2 = drawn g + length ar + length dr \<and>
            compare_dice (zip [6, 5, 4] [6, 3]) (a, d) = (a - 1, d - 1)"
proof -
  define ar where "ar = fst (rolls (nat (min (a - 1) 3)) g)"
  define g1 where "g1 = snd (rolls (nat (min (a - 1) 3)) g)"
  define dr where "dr = fst (rolls (nat (min d 2)) g1)"
  define g2 where "g2 = snd (rolls (nat (min d 2)) g1)"
  define n where "n = min (length (sorted_reverse ar)) (length (sorted_reverse dr))"
  have r1: "rolls (nat (min (a - 1) 3)) g = (ar, g1)" by (simp add: ar_def g1_def)
  have r2: "rolls (nat (min d 2)) g1 = (dr, g2)" by (simp add: dr_def g2_def)
  have la: "int (length ar) = min (a - 1) 3"
    using assms(1) by (simp add: ar_def rolls_length)
  have ld: "int (length dr) = min d 2"
    using assms(2) by (simp add: dr_def rolls_length)
  have rg: "\<forall>x\<in>set ar \<union> set dr. 1 \<le> x \<and> x \<le> 6"
    using rolls_range by (auto simp: ar_def dr_def)
  have br: "battle_round a d g =
              (a - int (length (filter (\<lambda>i. \<not> sorted_reverse ar ! i > sorted_reverse dr ! i)
                                  [0..<n])),
               d - int (length (filter (\<lambda>i. sorted_reverse ar ! i > sorted_reverse dr ! i)
                                  [0..<n])),
               g2)"
    using filter_zip_count [of "\<lambda>(aa, dd). \<not> aa > dd" "sorted_reverse ar" "sorted_reverse dr"]
      filter_zip_count [of "\<lambda>(aa, dd). aa > dd" "sorted_reverse ar" "sorted_reverse dr"]
    by (simp add: battle_round_def Let_def r1 r2 compare_dice_losses n_def)
  have dn: "drawn g2 = drawn g + length ar + length dr"
    by (simp add: g2_def g1_def rolls_drawn ar_def dr_def rolls_length)
  have ex: "compare_dice (zip [6, 5, 4] [6, 3]) (a, d) = (a - 1, d - 1)"
    by simp
  from la ld rg br dn ex sorted_reverse_props [of ar] sorted_reverse_props [of dr]
  show ?thesis
    unfolding Let_def ar_def [symmetric] g1_def [symmetric] dr_def [symmetric]
      g2_def [symmetric] n_def [symmetric]
    by simp
qed

text \<open>
  A concrete exchange for C4: four attackers against two defenders; the attacker rolls
  4, 6, 5 and the defender 3, 6.
\<close>

theorem battle_round_exchange_witness:
  "(1::int) < 4 \<and> (0::int) < 2 \<and>
   sorted_reverse (fst (rolls 3 (mock_random [3, 5, 4, 2, 5]))) = [6, 5, 4] \<and>
   sorted_reverse (fst (rolls 2 (snd (rolls 3 (mock_random [3, 5, 4, 2, 5]))))) = [6, 3] \<and>
   battle_round 4 2 (mock_random [3, 5, 4, 2, 5]) =
     (3, 1, (mock_random [3, 5, 4, 2, 5])\<lparr>drawn := 5\<rparr>)"
proof -
  let ?g = "mock_random [3, 5, 4, 2, 5]"
  have e1: "rolls 3 ?g = ([4, 6, 5], ?g\<lparr>drawn := 3\<rparr>)"
    by (simp add: rolls_unfold randint_def mock_random_def)
  have e2: "rolls 2 (?g\<lparr>drawn := 3\<rparr>) = ([3, 6], ?g\<lparr>drawn := 5\<rparr>)"
    by (simp add: rolls_unfold randint_def mock_random_def)
  have s1: "sorted_reverse [4, 6, 5] = [6, 5, 4]" by (simp add: sorted_reverse_def)
  have s2: "sorted_reverse [3, 6] = [6, 3]" by (simp add: sorted_reverse_def)
  from battle_round_exchange [of 4 2 ?g] show ?thesis
    by (simp add: Let_def e1 e2 s1 s2)
qed

section \<open>Reinforcement\<close>

text \<open>
  Where the contract of \<open>reinforce\<close> is met.  For \<open>available \<ge> 0\<close> and an agent that owns
  at least one territory, \<open>BetterAI.reinforce\<close> (with \<open>area_priority\<close> listing the areas
  of the owned border territories) returns an association list with distinct keys, all
  owned, and non-negative counts summing to \<open>available\<close>; so does \<open>StupidAI.reinforce\<close>
  when the agent owns a border territory.
\<close>

lemma reinforce_contract:
  assumes "0 \<le> available" and "territories self \<noteq> []"
  shows "((\<forall>t\<in>set (territories self). border t \<longrightarrow> area t \<in> set (area_priority self)) \<longrightarrow>
          (\<exists>result g'. BetterAI_reinforce self available g = Some (Inr (result, g')) \<and>
             (\<forall>(t, n)\<in>set result. t \<in> set (territories self) \<and> 0 \<le> n) \<and>
             sum_list (map snd result) = available \<and> distinct (map fst result))) \<and>
         ((\<exists>t\<in>set (territories self). border t) \<longrightarrow>
          (\<exists>result g'. StupidAI_reinforce self available g = Inr (result, g') \<and>
             (\<forall>(t, n)\<in>set result. t \<in> set (territories self) \<and> 0 \<le> n) \<and>
             sum_list (map snd result) = available \<and> distinct (map fst result)))"
proof (intro conjI impI)
  assume known: "\<forall>t\<in>set (territories self). border t \<longrightarrow> area t \<in> set (area_priority self)"
  from BetterAI_priority_known [OF known] assms(2) obtain p
    where p: "BetterAI_priority self = Inr p" "set p \<subseteq> set (territories self)" "p \<noteq> []"
    by blast
  have av: "available = int (nat available)" using assms(1) by simp
  from reinforce_loop_returns [OF p(3) av, of "[]" g] obtain res g'
    where r: "reinforce_loop p available [] g = Some (Inr (res, g'))"
      "fst ` set res \<subseteq> set p" "sum_list (map snd res) = available"
      "\<forall>m\<in>snd ` set res. 1 \<le> m" "distinct (map fst res)"
    by auto
  have "\<forall>(t, n)\<in>set res. t \<in> set (territories self) \<and> 0 \<le> n"
    using r(2,4) p(2) by fastforce
  with r(1,3,5) p(1)
  show "\<exists>result g'. BetterAI_reinforce self available g = Some (Inr (result, g')) \<and>
          (\<forall>(t, n)\<in>set result. t \<in> set (territories self) \<and> 0 \<le> n) \<and>
          sum_list (map snd result) = available \<and> distinct (map fst result)"
    by (simp add: BetterAI_reinforce_def)
next
  assume "\<exists>t\<in>set (territories self). border t"
  then have ne: "filter border (territories self) \<noteq> []"
    by (simp add: filter_empty_conv)
  from reinforce_for_returns [OF ne, of "nat available" "[]" g] obtain res g'
    where r: "reinforce_for (nat available) (filter border (territories self)) [] g =
                Inr (res, g')"
      "fst ` set res \<subseteq> set (filter border (territories self))"
      "sum_list (map snd res) = int (nat available)"
      "\<forall>m\<in>snd ` set res. 1 \<le> m" "distinct (map fst res)"
    by auto
  have "\<forall>(t, n)\<in>set res. t \<in> set (territories self) \<and> 0 \<le> n"
    using r(2,4) by fastforce
  with r(1,3,5) assms(1)
  show "\<exists>result g'. StupidAI_reinforce self available g = Inr (result, g') \<and>
          (\<forall>(t, n)\<in>set result. t \<in> set (territories self) \<and> 0 \<le> n) \<and>
          sum_list (map snd result) = available \<and> distinct (map fst result)"
    by (simp add: StupidAI_reinforce_def)
qed

text \<open>
  An agent that owns Alaska and Ukraine, both border territories, and Iceland; two
  pieces are available.
\<close>

lemma reinforce_contract_example:
  "(0::int) \<le> 2 \<and>
   territories \<lparr>territories = [\<lparr>name = ''Alaska'', area = ''America'', border = True\<rparr>,
                                \<lparr>name = ''Iceland'', area = ''Europe'', border = False\<rparr>,
                                \<lparr>name = ''Ukraine'', area = ''Europe'', border = True\<rparr>],
                 area_priority = [''Europe'', ''America'']\<rparr> \<noteq> [] \<and>
   area \<lparr>name = ''Alaska'', area = ''America'', border = True\<rparr>
     \<in> set [''Europe'', ''America''] \<and>
   area \<lparr>name = ''Ukraine'', area = ''Europe'', border = True\<rparr>
     \<in> set [''Europe'', ''America''] \<and>
   border \<lparr>name = ''Alaska'', area = ''America'', border = True\<rparr> \<and>
   BetterAI_reinforce
     \<lparr>territories = [\<lparr>name = ''Alaska'', area = ''America'', border = True\<rparr>,
                     \<lparr>name = ''Iceland'', area = ''Europe'', border = False\<rparr>,
                     \<lparr>name = ''Ukraine'', area = ''Europe'', border = True\<rparr>],
      area_priority = [''Europe'', ''America'']\<rparr> 2 (mock_random [1, 0]) =
     Some (Inr ([(\<lparr>name = ''Ukraine'', area = ''Europe'', border = True\<rparr>, 2)],
                (mock_random [1, 0])\<lparr>drawn := 2\<rparr>)) \<and>
   StupidAI_reinforce
     \<lparr>territories = [\<lparr>name = ''Alaska'', area = ''America'', border = True\<rparr>,
                     \<lparr>name = ''Iceland'', area = ''Europe'', border = False\<rparr>,
                     \<lparr>name = ''Ukraine'', area = ''Europe'', border = True\<rparr>],
      area_priority = [''Europe'', ''America'']\<rparr> 2 (mock_random [1, 0]) =
     Inr ([(\<lparr>name = ''Ukraine'', area = ''Europe'', border = True\<rparr>, 1),
           (\<lparr>name = ''Alaska'', area = ''America'', border = True\<rparr>, 1)],
          (mock_random [1, 0])\<lparr>drawn := 2\<rparr>)"
proof -
  let ?t1 = "\<lparr>name = ''Alaska'', area = ''America'', border = True\<rparr>"
  let ?t2 = "\<lparr>name = ''Iceland'', area = ''Europe'', border = False\<rparr>"
  let ?t3 = "\<lparr>name = ''Ukraine'', area = ''Europe'', border = True\<rparr>"
  let ?self = "\<lparr>territories = [?t1, ?t2, ?t3], area_priority = [''Europe'', ''America'']\<rparr>"
  let ?g = "mock_random [1, 0]"
  have p: "BetterAI_priority ?self = Inr [?t3]"
    by (simp add: BetterAI_priority_def sorted_by_area_def Let_def)
  have l: "reinforce_loop [?t3] 2 [] ?g = Some (Inr ([(?t3, 2)], ?g\<lparr>drawn := 2\<rparr>))"
    by (simp add: reinforce_loop.simps choice_def mock_random_def)
  have b: "BetterAI_reinforce ?self 2 ?g = Some (Inr ([(?t3, 2)], ?g\<lparr>drawn := 2\<rparr>))"
    by (simp only: BetterAI_reinforce_def p l sum.case)
  have st: "StupidAI_reinforce ?self 2 ?g = Inr ([(?t3, 1), (?t1, 1)], ?g\<lparr>drawn := 2\<rparr>)"
    by (simp add: StupidAI_reinforce_def choice_def mock_random_def numeral_2_eq_2)
  from reinforce_contract [of 2 ?self ?g] b st show ?thesis by simp
qed

text \<open>
  Claim C8.  The contract is right and \<open>StupidAI.reinforce\<close> breaks it: an agent whose
  only territory, Iceland, is not a border territory owns a non-empty set of
  territories, but \<open>StupidAI.reinforce(1)\<close> makes \<^verbatim>\<open>random.choice\<close> pick from the
  empty list of border territories and raises IndexError.  On the same agent
  \<open>BetterAI.reinforce(1)\<close>, whose \<open>priority()\<close> falls back to all owned territories,
  returns the one piece on Iceland.
\<close>

theorem StupidAI_reinforce_without_border:
  "StupidAI_reinforce
     \<lparr>territories = [\<lparr>name = ''Iceland'', area = ''Europe'', border = False\<rparr>],
      area_priority = [''Europe'']\<rparr> 1 (mock_random []) = Inl IndexError \<and>
   BetterAI_reinforce
     \<lparr>territories = [\<lparr>name = ''Iceland'', area = ''Europe'', border = False\<rparr>],
      area_priority = [''Europe'']\<rparr> 1 (mock_random []) =
     Some (Inr ([(\<lparr>name = ''Iceland'', area = ''Europe'', border = False\<rparr>, 1)],
                (mock_random [])\<lparr>drawn := 1\<rparr>))"
  by (simp add: StupidAI_reinforce_def BetterAI_reinforce_def BetterAI_priority_def
      sorted_by_area_def reinforce_loop.simps choice_def mock_random_def)

section \<open>Initial placement\<close>

text \<open>
  Claim C9.  In a world where \<open>area_priority\<close> contains the area of every territory
  concerned: given a non-empty list of empty territories, \<open>BetterAI.initial_placement\<close>
  and \<open>StupidAI.initial_placement\<close> return a member of that list; given \<open>None\<close> or the
  empty list, they return a territory the agent owns (the agent owning at least one).
\<close>

theorem initial_placement_contract:
  assumes "\<forall>t\<in>set es \<union> set (territories self). area t \<in> set (area_priority self)"
  shows "(es \<noteq> [] \<longrightarrow>
          (\<exists>t g'. BetterAI_initial_placement self (Some es) remaining g = Inr (t, g') \<and>
                  t \<in> set es) \<and>
          (\<exists>t g'. StupidAI_initial_placement self (Some es) remaining g = Inr (t, g') \<and>
                  t \<in> set es)) \<and>
         (territories self \<noteq> [] \<longrightarrow>
          (\<forall>e\<in>{None, Some []}.
             (\<exists>t g'. BetterAI_initial_placement self e remaining g = Inr (t, g') \<and>
                     t \<in> set (territories self)) \<and>
             (\<exists>t g'. StupidAI_initial_placement self e remaining g = Inr (t, g') \<and>
                     t \<in> set (territories self))))"
proof (intro conjI impI ballI)
  assume ne: "es \<noteq> []"
  have "\<forall>t\<in>set es. area t \<in> set (area_priority self)" using assms by simp
  from sorted_by_area_known [OF this] obtain srt
    where s: "sorted_by_area self es = Inr srt" "set srt = set es" "length srt = length es"
    by blast
  with ne obtain t ts where c: "srt = t # ts" by (cases srt) auto
  with s(2) have "t \<in> set es" by auto
  with ne s(1) c
  show "\<exists>t g'. BetterAI_initial_placement self (Some es) remaining g = Inr (t, g') \<and> t \<in> set es"
    by (simp add: BetterAI_initial_placement_def)
  from choice_member [OF ne, of g] ne
  show "\<exists>t g'. StupidAI_initial_placement self (Some es) remaining g = Inr (t, g') \<and> t \<in> set es"
    by (simp add: StupidAI_initial_placement_def)
next
  fix e :: "territory list option"
  assume own: "territories self \<noteq> []" and e: "e \<in> {None, Some []}"
  have "\<forall>t\<in>set (territories self). border t \<longrightarrow> area t \<in> set (area_priority self)"
    using assms by simp
  from BetterAI_priority_known [OF this] own obtain p
    where p: "BetterAI_priority self = Inr p" "set p \<subseteq> set (territories self)" "p \<noteq> []"
    by blast
  from choice_member [OF p(3), of g] obtain t g'
    where c: "choice p g = Inr (t, g')" "t \<in> set p" by blast
  with p(2) have "t \<in> set (territories self)" by auto
  with e p(1) c(1)
  show "\<exists>t g'. BetterAI_initial_placement self e remaining g = Inr (t, g') \<and>
               t \<in> set (territories self)"
    by (auto simp: BetterAI_initial_placement_def)
  from choice_member [OF own, of g] e
  show "\<exists>t g'. StupidAI_initial_placement self e remaining g = Inr (t, g') \<and>
               t \<in> set (territories self)"
    by (auto simp: StupidAI_initial_placement_def)
qed

text \<open>
  A concrete agent for C9: it owns Iceland; Alaska and Ukraine are still empty.
\<close>

theorem initial_placement_contract_witness:
  "area \<lparr>name = ''Alaska'', area = ''America'', border = True\<rparr>
     \<in> set [''Europe'', ''America''] \<and>
   area \<lparr>name = ''Ukraine'', area = ''Europe'', border = True\<rparr>
     \<in> set [''Europe'', ''America''] \<and>
   area \<lparr>name = ''Iceland'', area = ''Europe'', border = False\<rparr>
     \<in> set [''Europe'', ''America''] \<and>
   [\<lparr>name = ''Alaska'', area = ''America'', border = True\<rparr>,
    \<lparr>name = ''Ukraine'', area = ''Europe'', border = True\<rparr>] \<noteq> [] \<and>
   [\<lparr>name = ''Iceland'', area = ''Europe'', border = False\<rparr>] \<noteq> [] \<and>
   BetterAI_initial_placement
     \<lparr>territories = [\<lparr>name = ''Iceland'', area = ''Europe'', border = False\<rparr>],
      area_priority = [''Europe'', ''America'']\<rparr>
     (Some [\<lparr>name = ''Alaska'', area = ''America'', border = True\<rparr>,
            \<lparr>name = ''Ukraine'', area = ''Europe'', border = True\<rparr>]) 5 (mock_random [0]) =
     Inr (\<lparr>name = ''Ukraine'', area = ''Europe'', border = True\<rparr>, mock_random [0]) \<and>
   StupidAI_initial_placement
     \<lparr>territories = [\<lparr>name = ''Iceland'', area = ''Europe'', border = False\<rparr>],
      area_priority = [''Europe'', ''America'']\<rparr>
     (Some [\<lparr>name = ''Alaska'', area = ''America'', border = True\<rparr>,
            \<lparr>name = ''Ukraine'', area = ''Europe'', border = True\<rparr>]) 5 (mock_random [0]) =
     Inr (\<lparr>name = ''Alaska'', area = ''America'', border = True\<rparr>,
          (mock_random [0])\<lparr>drawn := 1\<rparr>) \<and>
   BetterAI_initial_placement
     \<lparr>territories = [\<lparr>name = ''Iceland'', area = ''Europe'', border = False\<rparr>],
      area_priority = [''Europe'', ''America'']\<rparr> None 5 (mock_random [0]) =
     Inr (\<lparr>name = ''Iceland'', area = ''Europe'', border = False\<rparr>,
          (mock_random [0])\<lparr>drawn := 1\<rparr>) \<and>
   StupidAI_initial_placement
     \<lparr>territories = [\<lparr>name = ''Iceland'', area = ''Europe'', border = False\<rparr>],
      area_priority = [''Europe'', ''America'']\<rparr> (Some []) 5 (mock_random [0]) =
     Inr (\<lparr>name = ''Iceland'', area = ''Europe'', border = False\<rparr>,
          (mock_random [0])\<lparr>drawn := 1\<rparr>)"
proof -
  let ?t1 = "\<lparr>name = ''Alaska'', area = ''America'', border = True\<rparr>"
  let ?t2 = "\<lparr>name = ''Iceland'', area = ''Europe'', border = False\<rparr>"
  let ?t3 = "\<lparr>name = ''Ukraine'', area = ''Europe'', border = True\<rparr>"
  let ?self = "\<lparr>territories = [?t2], area_priority = [''Europe'', ''America'']\<rparr>"
  let ?g = "mock_random [0]"
  have b1: "BetterAI_initial_placement ?self (Some [?t1, ?t3]) 5 ?g = Inr (?t3, ?g)"
    by (simp add: BetterAI_initial_placement_def sorted_by_area_def)
  have s1: "StupidAI_initial_placement ?self (Some [?t1, ?t3]) 5 ?g =
              Inr (?t1, ?g\<lparr>drawn := 1\<rparr>)"
    by (simp add: StupidAI_initial_placement_def choice_def mock_random_def)
  have b2: "BetterAI_initial_placement ?self None 5 ?g = Inr (?t2, ?g\<lparr>drawn := 1\<rparr>)"
    by (simp add: BetterAI_initial_placement_def BetterAI_priority_def sorted_by_area_def
        choice_def mock_random_def)
  have s2: "StupidAI_initial_placement ?self (Some []) 5 ?g = Inr (?t2, ?g\<lparr>drawn := 1\<rparr>)"
    by (simp add: StupidAI_initial_placement_def choice_def mock_random_def)
  from initial_placement_contract [of "[?t1, ?t3]" ?self 5 ?g] b1 s1 b2 s2
  show ?thesis by simp
qed

end
